theory Spec2Isabelle
  imports Main "HOL-Library.Char_ord" "HOL-Library.List_Lexorder"
begin

section \<open>Values and objects\<close>

text \<open>
  The generator works on parsed \<^verbatim>\<open>package.json\<close> documents. A document is a tree of
  string-keyed fields; its leaves are strings, lists of strings, booleans and null.

  An object is the list of its entries in the order the host enumerates them
  (\<^verbatim>\<open>Object.keys\<close>, \<^verbatim>\<open>for ... in\<close>, \<^verbatim>\<open>_.assign\<close>): first the keys that are array
  indices (the decimal numerals of the integers from \<open>0\<close> to \<open>2\<^sup>3\<^sup>2 - 2\<close>, without sign or
  leading zero) in ascending numeric order, then every other key in assignment order.
  The comment on \<^verbatim>\<open>alphabetizeObject\<close> in the source ("the way V8 orders object
  properties - by their assignment order") holds for the second group only. Strings are
  compared character by character on their codes, a proper prefix first, as the default
  \<^verbatim>\<open>Array.prototype.sort\<close> compares strings.
\<close>

datatype json =
    JNull
  | JBool bool
  | JStr string
  | JArr "string list"
  | JObj "(string \<times> json) list"

text \<open>Reading property \<open>k\<close>. Where a list binds a key twice the last binding counts.\<close>

primrec obj_get :: "(string \<times> 'a) list \<Rightarrow> string \<Rightarrow> 'a option" where
  "obj_get [] k = None"
| "obj_get (p # ps) k =
     (case obj_get ps k of
        Some v \<Rightarrow> Some v
      | None \<Rightarrow> if fst p = k then Some (snd p) else None)"

definition obj_keys :: "(string \<times> 'a) list \<Rightarrow> string list" where
  \<comment> \<open>\<^verbatim>\<open>Object.keys(o)\<close>\<close>
  "obj_keys ob = map fst ob"

definition is_digit :: "char \<Rightarrow> bool" where
  "is_digit c = (CHR ''0'' \<le> c \<and> c \<le> CHR ''9'')"

definition index_value :: "string \<Rightarrow> int" where
  \<comment> \<open>the number a decimal numeral denotes\<close>
  "index_value s = foldl (\<lambda>n c. 10 * n + (of_char c - 48)) 0 s"

definition is_index :: "string \<Rightarrow> bool" where
  \<comment> \<open>the key is an array index: the canonical numeral of an integer below \<open>2\<^sup>3\<^sup>2 - 1\<close>\<close>
  "is_index s =
     (s \<noteq> [] \<and> list_all is_digit s \<and> (s = ''0'' \<or> hd s \<noteq> CHR ''0'') \<and>
      index_value s < 4294967295)"

definition enumeration :: "(string \<times> 'a) list \<Rightarrow> (string \<times> 'a) list" where
  \<comment> \<open>the entries of an object, given in assignment order, in the order they are
      enumerated\<close>
  "enumeration ob =
     sort_key (\<lambda>p. index_value (fst p)) (filter (\<lambda>p. is_index (fst p)) ob) @
     filter (\<lambda>p. \<not> is_index (fst p)) ob"

text \<open>
  \<^verbatim>\<open>o[k] = v\<close>: an existing property keeps its place and takes the new value, a new
  property is assigned after all the others, and the object is enumerated with it: a
  new array index takes its numeric place among the array indices, any other new key
  goes to the end.
\<close>

definition set_prop :: "string \<Rightarrow> 'a \<Rightarrow> (string \<times> 'a) list \<Rightarrow> (string \<times> 'a) list" where
  "set_prop k v ob =
     (if k \<in> set (obj_keys ob)
      then map (\<lambda>p. if fst p = k then (k, v) else p) ob
      else enumeration (ob @ [(k, v)]))"

definition delete_prop :: "string \<Rightarrow> (string \<times> 'a) list \<Rightarrow> (string \<times> 'a) list" where
  \<comment> \<open>\<^verbatim>\<open>delete o[k]\<close>\<close>
  "delete_prop k ob = filter (\<lambda>p. fst p \<noteq> k) ob"

definition assign :: "(string \<times> 'a) list \<Rightarrow> (string \<times> 'a) list \<Rightarrow> (string \<times> 'a) list" where
  \<comment> \<open>\<^verbatim>\<open>_.assign(target, source)\<close>: every own property of the source is assigned to the
      target, in the source's order.\<close>
  "assign target source = foldl (\<lambda>ob p. set_prop (fst p) (snd p) ob) target source"

definition pick :: "(string \<times> 'a) list \<Rightarrow> string list \<Rightarrow> (string \<times> 'a) list" where
  \<comment> \<open>\<^verbatim>\<open>_.pick(source, paths)\<close>: a new object with the listed properties of the source
      that exist, assigned in the order of the list.\<close>
  "pick source paths =
     foldl (\<lambda>ob k. case obj_get source k of Some v \<Rightarrow> set_prop k v ob | None \<Rightarrow> ob) [] paths"

fun decimal :: "nat \<Rightarrow> string" where
  "decimal n =
     (if n < 10 then [char_of (48 + n)]
      else decimal (n div 10) @ [char_of (48 + n mod 10)])"

declare decimal.simps [simp del]

text \<open>
  The own enumerable properties \<^verbatim>\<open>_.assign\<close> copies from a source value: the entries
  of an object, the indexed elements of an array, the indexed characters of a string,
  and nothing from null or a boolean.
\<close>

fun own_props :: "json \<Rightarrow> (string \<times> json) list" where
  "own_props (JObj kvs) = kvs"
| "own_props (JArr xs) = zip (map decimal [0..<length xs]) (map JStr xs)"
| "own_props (JStr s) = zip (map decimal [0..<length s]) (map (\<lambda>c. JStr [c]) s)"
| "own_props JNull = []"
| "own_props (JBool b) = []"

definition source_props :: "json option \<Rightarrow> (string \<times> json) list" where
  \<comment> \<open>a source that may be \<^verbatim>\<open>undefined\<close>\<close>
  "source_props src = (case src of None \<Rightarrow> [] | Some j \<Rightarrow> own_props j)"

fun field :: "json \<Rightarrow> string \<Rightarrow> json option" where
  \<comment> \<open>\<^verbatim>\<open>value.k\<close> for the property names this program reads\<close>
  "field (JObj kvs) k = obj_get kvs k"
| "field j k = None"

fun truthy :: "json \<Rightarrow> bool" where
  "truthy JNull = False"
| "truthy (JBool b) = b"
| "truthy (JStr s) = (s \<noteq> [])"
| "truthy (JArr xs) = True"
| "truthy (JObj kvs) = True"

section \<open>Strings and lists\<close>

definition startsWith :: "string \<Rightarrow> string \<Rightarrow> bool" where
  \<comment> \<open>\<^verbatim>\<open>_.startsWith(string, target)\<close>\<close>
  "startsWith s t = (take (length t) s = t)"

definition substr :: "string \<Rightarrow> nat \<Rightarrow> string" where
  \<comment> \<open>\<^verbatim>\<open>s.substr(n)\<close>\<close>
  "substr s n = drop n s"

definition difference :: "'a list \<Rightarrow> 'a list \<Rightarrow> 'a list" where
  \<comment> \<open>\<^verbatim>\<open>_.difference(array, values)\<close>\<close>
  "difference xs ys = filter (\<lambda>x. x \<notin> set ys) xs"

fun indexOf :: "'a list \<Rightarrow> 'a \<Rightarrow> nat option" where
  \<comment> \<open>\<^verbatim>\<open>array.indexOf(x)\<close>; \<open>None\<close> stands for \<open>-1\<close>\<close>
  "indexOf [] x = None"
| "indexOf (y # ys) x =
     (if y = x then Some 0 else (case indexOf ys x of None \<Rightarrow> None | Some i \<Rightarrow> Some (Suc i)))"

definition splice_in :: "'a list \<Rightarrow> nat \<Rightarrow> 'a \<Rightarrow> 'a list" where
  \<comment> \<open>\<^verbatim>\<open>array.splice(i, 0, x)\<close>\<close>
  "splice_in xs i x = take i xs @ x # drop i xs"

fun uniq :: "'a list \<Rightarrow> 'a list" where
  \<comment> \<open>the values of a list in order of first occurrence\<close>
  "uniq [] = []"
| "uniq (x # xs) = x # uniq (filter (\<lambda>y. y \<noteq> x) xs)"

definition union :: "'a list \<Rightarrow> 'a list \<Rightarrow> 'a list" where
  \<comment> \<open>\<^verbatim>\<open>_.union(xs, ys)\<close>\<close>
  "union xs ys = uniq (xs @ ys)"

section \<open>Canonical order\<close>

definition alphabetizeObject :: "(string \<times> 'a) list \<Rightarrow> (string \<times> 'a) list" where
  "alphabetizeObject source = pick source (sort (obj_keys source))"

definition isPrePost :: "string \<Rightarrow> bool" where
  "isPrePost k = (startsWith k ''pre'' \<or> startsWith k ''post'')"

definition inject :: "string list \<Rightarrow> string \<Rightarrow> string list" where
  \<comment> \<open>the body of the \<^verbatim>\<open>forEach\<close> in \<^verbatim>\<open>alphabetizeScripts\<close>\<close>
  "inject order pp =
     (let isPre = startsWith pp ''pre'' in
      case indexOf order (substr pp (if isPre then 3 else 4)) of
        Some i \<Rightarrow> splice_in order (if isPre then i else i + 1) pp
      | None \<Rightarrow> order @ [pp])"

definition scriptOrder :: "string list \<Rightarrow> string list" where
  \<comment> \<open>the list \<^verbatim>\<open>order\<close> of \<^verbatim>\<open>alphabetizeScripts\<close> after the loop\<close>
  "scriptOrder keys =
     (let prePost = filter isPrePost keys;
          order = sort (difference keys prePost)
      in foldl inject order prePost)"

definition alphabetizeScripts :: "(string \<times> 'a) list \<Rightarrow> (string \<times> 'a) list" where
  "alphabetizeScripts source = pick source (scriptOrder (obj_keys source))"

section \<open>The version registry\<close>

text \<open>
  \<^verbatim>\<open>pkg\<close> is the generator's own \<^verbatim>\<open>plugin/package.json\<close> and
  \<^verbatim>\<open>generatorVersion\<close> the function of \<^verbatim>\<open>./generator-version\<close>; neither file is
  part of the sources at hand, so both are parameters. The module gives
  \<^verbatim>\<open>optionalDependencies\<close> and \<^verbatim>\<open>devDependencies\<close> the default \<^verbatim>\<open>{}\<close>, and reads
  \<^verbatim>\<open>dependencies\<close> as it is.
\<close>

record package =
  optionalDependencies :: "(string \<times> string) list option"
  devDependencies :: "(string \<times> string) list option"
  dependencies :: "(string \<times> string) list"

record env =
  pkg :: package
  generatorVersion :: string

datatype error = Error string

definition or_empty :: "(string \<times> string) list option \<Rightarrow> (string \<times> string) list" where
  \<comment> \<open>\<^verbatim>\<open>x || {}\<close>\<close>
  "or_empty m = (case m of None \<Rightarrow> [] | Some ob \<Rightarrow> ob)"

definition truthy_version :: "string option \<Rightarrow> bool" where
  \<comment> \<open>a version is falsy when it is \<^verbatim>\<open>undefined\<close> or the empty string\<close>
  "truthy_version v = (case v of None \<Rightarrow> False | Some s \<Rightarrow> s \<noteq> [])"

definition getGeneratorVersion :: "package \<Rightarrow> string \<Rightarrow> string option" where
  "getGeneratorVersion p pkgName =
     (let a = obj_get (or_empty (optionalDependencies p)) pkgName in
      if truthy_version a then a
      else let b = obj_get (or_empty (devDependencies p)) pkgName in
        if truthy_version b then b
        else obj_get (dependencies p) pkgName)"

definition unresolved :: "string \<Rightarrow> error" where
  "unresolved pkgName =
     Error (''Error '' @ pkgName @ '' is not in dependencies for generator-videojs-plugin'')"

primrec reduce_versions ::
  "package \<Rightarrow> (string \<times> json) list \<Rightarrow> string list \<Rightarrow> error + (string \<times> json) list" where
  "reduce_versions p acc [] = Inr acc"
| "reduce_versions p acc (pkgName # rest) =
     (case getGeneratorVersion p pkgName of
        None \<Rightarrow> Inl (unresolved pkgName)
      | Some v \<Rightarrow>
          if v = [] then Inl (unresolved pkgName)
          else reduce_versions p (set_prop pkgName (JStr v) acc) rest)"

definition getGeneratorVersions :: "package \<Rightarrow> string list \<Rightarrow> error + (string \<times> json) list" where
  "getGeneratorVersions p pkgList = reduce_versions p [] pkgList"

record defaults =
  default_dependencies :: "(string \<times> json) list"
  default_devDependencies :: "(string \<times> json) list"

definition baseline_dependencies :: "string list" where
  "baseline_dependencies = [''global'', ''video.js'']"

definition baseline_devDependencies :: "string list" where
  "baseline_devDependencies =
     [''conventional-changelog-cli'',
      ''conventional-changelog-videojs'',
      ''karma'',
      ''npm-run-all'',
      ''rollup'',
      ''shx'',
      ''videojs-generate-rollup-config'',
      ''videojs-generate-karma-config'',
      ''not-prerelease'',
      ''sinon'',
      ''videojs-standard'',
      ''npm-merge-driver-install'',
      ''husky'',
      ''lint-staged'',
      ''videojs-generator-verify'']"

definition DEFAULTS :: "package \<Rightarrow> error + defaults" where
  \<comment> \<open>evaluated once, when the module is loaded\<close>
  "DEFAULTS p =
     (case getGeneratorVersions p baseline_dependencies of
        Inl e \<Rightarrow> Inl e
      | Inr deps \<Rightarrow>
          (case getGeneratorVersions p baseline_devDependencies of
             Inl e \<Rightarrow> Inl e
           | Inr devs \<Rightarrow>
               Inr \<lparr>default_dependencies = deps, default_devDependencies = devs\<rparr>))"

section \<open>The generation context\<close>

record gen_context =
  pluginName :: string
  packageName :: string
  version :: string
  description :: string
  author :: string
  licenseName :: string
  docs :: bool
  css :: bool
  lang :: bool
  precommit :: bool
  prepush :: bool

text \<open>
  \<^verbatim>\<open>str.replace(/%s/g, context.pluginName)\<close>. The second argument is a replacement
  pattern: \<^verbatim>\<open>$$\<close> stands for a dollar sign, \<^verbatim>\<open>$&\<close> for the matched text, and
  \<^verbatim>\<open>$\<close> followed by a backtick or an apostrophe for the text before or after the match.
  The expression has no capture group, so every other character stands for itself.
\<close>

fun substitution :: "string \<Rightarrow> string \<Rightarrow> string \<Rightarrow> string \<Rightarrow> string" where
  "substitution matched preceding following [] = []"
| "substitution matched preceding following [c] = [c]"
| "substitution matched preceding following (c # d # r) =
     (if c = CHR ''$'' \<and> d = CHR ''$'' then CHR ''$'' # substitution matched preceding following r
      else if c = CHR ''$'' \<and> d = CHR ''&'' then matched @ substitution matched preceding following r
      else if c = CHR ''$'' \<and> d = CHR 0x60 then preceding @ substitution matched preceding following r
      else if c = CHR ''$'' \<and> d = CHR 0x27 then following @ substitution matched preceding following r
      else c # substitution matched preceding following (d # r))"

fun replace_tokens :: "string \<Rightarrow> string \<Rightarrow> string \<Rightarrow> string" where
  "replace_tokens replacement preceding [] = []"
| "replace_tokens replacement preceding [c] = [c]"
| "replace_tokens replacement preceding (c # d # s) =
     (if c = CHR ''%'' \<and> d = CHR ''s''
      then substitution ''%s'' preceding s replacement
           @ replace_tokens replacement (preceding @ ''%s'') s
      else c # replace_tokens replacement (preceding @ [c]) (d # s))"

definition scriptify :: "gen_context \<Rightarrow> string \<Rightarrow> string" where
  \<comment> \<open>every call in the source passes a string, so the array branch is not taken\<close>
  "scriptify ctx str = replace_tokens (pluginName ctx) [] str"

section \<open>Creating the package.json\<close>

definition object_at :: "(string \<times> json) list \<Rightarrow> string \<Rightarrow> (string \<times> json) list" where
  \<comment> \<open>\<^verbatim>\<open>result.k\<close>, read where the program has stored an object\<close>
  "object_at ob k = (case obj_get ob k of Some (JObj kvs) \<Rightarrow> kvs | _ \<Rightarrow> [])"

definition on_object :: "((string \<times> json) list \<Rightarrow> (string \<times> json) list) \<Rightarrow> json \<Rightarrow> json" where
  "on_object f j = (case j of JObj kvs \<Rightarrow> JObj (f kvs) | _ \<Rightarrow> j)"

definition on_array :: "(string list \<Rightarrow> string list) \<Rightarrow> json \<Rightarrow> json" where
  "on_array f j = (case j of JArr xs \<Rightarrow> JArr (f xs) | _ \<Rightarrow> j)"

definition in_object ::
  "string \<Rightarrow> ((string \<times> json) list \<Rightarrow> (string \<times> json) list) \<Rightarrow>
   (string \<times> json) list \<Rightarrow> (string \<times> json) list" where
  \<comment> \<open>a mutation \<open>f\<close> of the object stored in property \<open>k\<close>\<close>
  "in_object k f ob = map (\<lambda>p. if fst p = k then (fst p, on_object f (snd p)) else p) ob"

definition in_array ::
  "string \<Rightarrow> (string list \<Rightarrow> string list) \<Rightarrow> (string \<times> json) list \<Rightarrow> (string \<times> json) list" where
  \<comment> \<open>a mutation \<open>f\<close> of the array stored in property \<open>k\<close>\<close>
  "in_array k f ob = map (\<lambda>p. if fst p = k then (fst p, on_array f (snd p)) else p) ob"

definition current_or_empty :: "json option \<Rightarrow> json" where
  \<comment> \<open>\<^verbatim>\<open>current = current || {}\<close>\<close>
  "current_or_empty current =
     (case current of None \<Rightarrow> JObj [] | Some c \<Rightarrow> if truthy c then c else JObj [])"

definition array_arg :: "json option \<Rightarrow> string list" where
  \<comment> \<open>an argument of \<^verbatim>\<open>_.union\<close>: only arrays contribute\<close>
  "array_arg a = (case a of Some (JArr xs) \<Rightarrow> xs | _ \<Rightarrow> [])"

definition strs :: "(string \<times> string) list \<Rightarrow> (string \<times> json) list" where
  \<comment> \<open>an object literal whose values are all strings\<close>
  "strs table = map (\<lambda>p. (fst p, JStr (snd p))) table"

definition baseline_scripts_table :: "(string \<times> string) list" where
  "baseline_scripts_table =
     [(''prebuild'', ''npm run clean''),
      (''build'', ''npm-run-all -p build:*''),
      (''build:js'', ''rollup -c scripts/rollup.config.js''),
      (''clean'', ''shx rm -rf ./dist ./test/dist''),
      (''postclean'', ''shx mkdir -p ./dist ./test/dist''),
      (''lint'', ''vjsstandard''),
      (''prepublishOnly'', ''npm-run-all build test:verify''),
      (''start'', ''npm-run-all -p server watch''),
      (''server'', ''karma start scripts/karma.conf.js --singleRun=false --auto-watch''),
      (''pretest'', ''npm-run-all lint build''),
      (''test'', ''npm-run-all test:*''),
      (''test:verify'', ''vjsverify --verbose''),
      (''test:unit'', ''karma start scripts/karma.conf.js''),
      (''posttest'', ''shx cat test/dist/coverage/text.txt''),
      (''preversion'', ''npm test''),
      (''version'', ''is-prerelease || npm run update-changelog && git add CHANGELOG.md''),
      (''update-changelog'', ''conventional-changelog -p videojs -i CHANGELOG.md -s''),
      (''watch'', ''npm-run-all -p watch:*''),
      (''watch:js'', ''npm run build:js -- -w'')]"

definition docs_scripts_table :: "(string \<times> string) list" where
  "docs_scripts_table =
     [(''docs'', ''npm-run-all docs:*''),
      (''docs:api'', ''jsdoc src -g plugins/markdown -r -d docs/api''),
      (''docs:toc'', ''doctoc README.md'')]"

definition css_scripts_table :: "gen_context \<Rightarrow> (string \<times> string) list" where
  "css_scripts_table ctx =
     [(''build:css'',
       scriptify ctx ''postcss -o dist/%s.css --config scripts/postcss.config.js src/plugin.css''),
      (''watch:css'', ''npm run build:css -- -w'')]"

definition baseline_scripts :: "(string \<times> json) list" where
  "baseline_scripts = strs baseline_scripts_table"

definition docs_scripts :: "(string \<times> json) list" where
  "docs_scripts = strs docs_scripts_table"

definition css_scripts :: "gen_context \<Rightarrow> (string \<times> json) list" where
  "css_scripts ctx = strs (css_scripts_table ctx)"

definition generated_fields ::
  "env \<Rightarrow> defaults \<Rightarrow> json \<Rightarrow> gen_context \<Rightarrow> (string \<times> json) list" where
  \<comment> \<open>the object literal that is the last argument of the first \<^verbatim>\<open>_.assign\<close>\<close>
  "generated_fields e d current ctx =
     [(''name'', JStr (packageName ctx)),
      (''version'', JStr (version ctx)),
      (''description'', JStr (description ctx)),
      (''main'', JStr (scriptify ctx ''dist/%s.cjs.js'')),
      (''module'', JStr (scriptify ctx ''dist/%s.es.js'')),
      (''generator-videojs-plugin'', JObj [(''version'', JStr (generatorVersion e))]),
      (''browserslist'', JArr [''defaults'', ''ie 11'']),
      (''scripts'',
         JObj (assign (assign [] (source_props (field current ''scripts''))) baseline_scripts)),
      (''engines'', JObj [(''node'', JStr ''>=8''), (''npm'', JStr ''>=5'')]),
      (''keywords'',
         JArr (sort (union [''videojs'', ''videojs-plugin'']
                      (array_arg (field current ''keywords''))))),
      (''author'', JStr (author ctx)),
      (''license'', JStr (licenseName ctx)),
      (''vjsstandard'', JObj [(''ignore'', JArr [''dist'', ''docs'', ''test/dist''])]),
      (''files'',
         JArr [''CONTRIBUTING.md'', ''dist/'', ''docs/'', ''index.html'', ''scripts/'',
               ''src/'', ''test/'']),
      (''husky'',
         JObj [(''hooks'',
                JObj [(''pre-commit'', JStr ''lint-staged''),
                      (''pre-push'', JStr ''npm run test'')])]),
      (''lint-staged'',
         JObj [(''*.js'', JArr [''vjsstandard --fix'', ''git add'']),
               (''README.md'', JArr [''npm run docs:toc'', ''git add''])]),
      (''dependencies'',
         JObj (assign (assign [] (source_props (field current ''dependencies'')))
                 (default_dependencies d))),
      (''devDependencies'',
         JObj (assign (assign [] (source_props (field current ''devDependencies'')))
                 (default_devDependencies d)))]"

definition compose ::
  "env \<Rightarrow> defaults \<Rightarrow> json \<Rightarrow> gen_context \<Rightarrow> (string \<times> json) list" where
  \<comment> \<open>\<^verbatim>\<open>const result = _.assign({}, current, {...})\<close>\<close>
  "compose e d current ctx =
     assign (assign [] (own_props current)) (generated_fields e d current ctx)"

definition strip_precommit :: "gen_context \<Rightarrow> (string \<times> json) list \<Rightarrow> (string \<times> json) list" where
  "strip_precommit ctx result =
     (if \<not> precommit ctx
      then delete_prop ''lint-staged''
             (in_object ''husky'' (in_object ''hooks'' (delete_prop ''pre-commit''))
                (in_object ''scripts'' (delete_prop ''precommit'') result))
      else result)"

definition strip_prepush :: "gen_context \<Rightarrow> (string \<times> json) list \<Rightarrow> (string \<times> json) list" where
  "strip_prepush ctx result =
     (if \<not> prepush ctx
      then in_object ''husky'' (in_object ''hooks'' (delete_prop ''pre-push''))
             (in_object ''scripts'' (delete_prop ''prepush'') result)
      else result)"

definition strip_husky :: "gen_context \<Rightarrow> (string \<times> json) list \<Rightarrow> (string \<times> json) list" where
  "strip_husky ctx result =
     (if \<not> prepush ctx \<and> \<not> precommit ctx
      then in_object ''devDependencies'' (delete_prop ''lint-staged'')
             (in_object ''devDependencies'' (delete_prop ''husky'') result)
      else result)"

definition add_docs ::
  "package \<Rightarrow> gen_context \<Rightarrow> (string \<times> json) list \<Rightarrow> error + (string \<times> json) list" where
  "add_docs p ctx result =
     (if docs ctx
      then let result1 = in_object ''scripts'' (\<lambda>s. assign s docs_scripts) result in
           (case getGeneratorVersions p [''doctoc'', ''jsdoc''] of
              Inl e \<Rightarrow> Inl e
            | Inr vs \<Rightarrow> Inr (in_object ''devDependencies'' (\<lambda>s. assign s vs) result1))
      else Inr result)"

definition add_css ::
  "package \<Rightarrow> gen_context \<Rightarrow> (string \<times> json) list \<Rightarrow> error + (string \<times> json) list" where
  "add_css p ctx result =
     (if css ctx
      then let result1 = in_object ''scripts'' (\<lambda>s. assign s (css_scripts ctx)) result in
           (case getGeneratorVersions p [''postcss-cli'', ''videojs-generate-postcss-config''] of
              Inl e \<Rightarrow> Inl e
            | Inr vs \<Rightarrow> Inr (in_object ''devDependencies'' (\<lambda>s. assign s vs) result1))
      else Inr result)"

definition add_lang ::
  "package \<Rightarrow> gen_context \<Rightarrow> (string \<times> json) list \<Rightarrow> error + (string \<times> json) list" where
  "add_lang p ctx result =
     (if lang ctx
      then let result1 =
                 in_object ''scripts'' (set_prop ''build:lang'' (JStr ''vjslang --dir dist/lang''))
                   result in
           (case getGeneratorVersions p [''videojs-languages''] of
              Inl e \<Rightarrow> Inl e
            | Inr vs \<Rightarrow> Inr (in_object ''devDependencies'' (\<lambda>s. assign s vs) result1))
      else Inr result)"

definition normalize :: "(string \<times> json) list \<Rightarrow> (string \<times> json) list" where
  \<comment> \<open>the four statements before \<^verbatim>\<open>return result\<close>\<close>
  "normalize result =
     (let r1 = in_array ''files'' sort result;
          r2 = set_prop ''scripts'' (JObj (alphabetizeScripts (object_at r1 ''scripts''))) r1;
          r3 = set_prop ''dependencies''
                 (JObj (alphabetizeObject (object_at r2 ''dependencies''))) r2
      in set_prop ''devDependencies''
           (JObj (alphabetizeObject (object_at r3 ''devDependencies''))) r3)"

text \<open>
  \<^verbatim>\<open>DEFAULTS\<close> is a constant of the module: it is computed when the module is loaded,
  before any call, and an error there leaves no function to call. The model runs it at
  the start of the call.
\<close>

definition packageJSON :: "env \<Rightarrow> json option \<Rightarrow> gen_context \<Rightarrow> error + (string \<times> json) list" where
  "packageJSON e current ctx =
     (case DEFAULTS (pkg e) of
        Inl err \<Rightarrow> Inl err
      | Inr d \<Rightarrow>
          (let result = compose e d (current_or_empty current) ctx;
               result = strip_precommit ctx result;
               result = strip_prepush ctx result;
               result = strip_husky ctx result
           in case add_docs (pkg e) ctx result of
                Inl err \<Rightarrow> Inl err
              | Inr result \<Rightarrow>
                  (case add_css (pkg e) ctx result of
                     Inl err \<Rightarrow> Inl err
                   | Inr result \<Rightarrow>
                       (case add_lang (pkg e) ctx result of
                          Inl err \<Rightarrow> Inl err
                        | Inr result \<Rightarrow> Inr (normalize result)))))"

section \<open>Derived notions used in the statements and proofs\<close>

definition key_order :: "string list \<Rightarrow> string list" where
  \<comment> \<open>the order in which an object lists keys that were assigned in the order \<open>ks\<close>\<close>
  "key_order ks = sort_key index_value (filter is_index ks) @ filter (\<lambda>k. \<not> is_index k) ks"

definition core_name :: "string \<Rightarrow> string" where
  "core_name pp = substr pp (if startsWith pp ''pre'' then 3 else 4)"

definition pre_name :: "string \<Rightarrow> string" where
  "pre_name c = ''pre'' @ c"

definition post_name :: "string \<Rightarrow> string" where
  "post_name c = ''post'' @ c"

definition lifecycle_block :: "string list \<Rightarrow> string \<Rightarrow> string list" where
  "lifecycle_block Q c = filter (\<lambda>k. k = pre_name c) Q @ [c] @ filter (\<lambda>k. k = post_name c) Q"

definition paired_order :: "string list \<Rightarrow> string list \<Rightarrow> string list" where
  "paired_order N Q = concat (map (lifecycle_block Q) N) @ filter (\<lambda>k. core_name k \<notin> set N) Q"

definition unnested :: "string list \<Rightarrow> bool" where
  "unnested ks =
     (\<forall>pp \<in> set ks. isPrePost pp \<longrightarrow> \<not> (isPrePost (core_name pp) \<and> core_name pp \<in> set ks))"

definition lifecycle_order :: "string list \<Rightarrow> string list" where
  "lifecycle_order ks =
     concat (map (\<lambda>c. (if pre_name c \<in> set ks then [pre_name c] else []) @ [c]
                        @ (if post_name c \<in> set ks then [post_name c] else []))
               (sort (filter (\<lambda>k. \<not> isPrePost k) ks)))
     @ filter (\<lambda>k. isPrePost k \<and> core_name k \<notin> set ks) ks"

fun immediately_before :: "'a \<Rightarrow> 'a \<Rightarrow> 'a list \<Rightarrow> bool" where
  "immediately_before a b (x # y # zs) = ((x = a \<and> y = b) \<or> immediately_before a b (y # zs))"
| "immediately_before a b [x] = False"
| "immediately_before a b [] = False"

definition resolves :: "package \<Rightarrow> string \<Rightarrow> bool" where
  "resolves p n = truthy_version (getGeneratorVersion p n)"

definition version_of :: "package \<Rightarrow> string \<Rightarrow> string" where
  "version_of p n = (case getGeneratorVersion p n of Some v \<Rightarrow> v | None \<Rightarrow> [])"

definition resolved_entries :: "package \<Rightarrow> string list \<Rightarrow> (string \<times> json) list" where
  "resolved_entries p names = map (\<lambda>n. (n, JStr (version_of p n))) names"

definition requested :: "gen_context \<Rightarrow> string list" where
  "requested ctx =
     baseline_dependencies @ baseline_devDependencies
     @ (if docs ctx then [''doctoc'', ''jsdoc''] else [])
     @ (if css ctx then [''postcss-cli'', ''videojs-generate-postcss-config''] else [])
     @ (if lang ctx then [''videojs-languages''] else [])"

definition resolved_defaults :: "package \<Rightarrow> defaults" where
  "resolved_defaults p =
     \<lparr>default_dependencies = assign [] (resolved_entries p baseline_dependencies),
      default_devDependencies = assign [] (resolved_entries p baseline_devDependencies)\<rparr>"

definition feature_docs :: "package \<Rightarrow> gen_context \<Rightarrow> (string \<times> json) list \<Rightarrow> (string \<times> json) list" where
  "feature_docs p ctx result =
     (if docs ctx
      then in_object ''devDependencies'' (\<lambda>s. assign s (assign [] (resolved_entries p [''doctoc'', ''jsdoc''])))
             (in_object ''scripts'' (\<lambda>s. assign s docs_scripts) result)
      else result)"

definition feature_css :: "package \<Rightarrow> gen_context \<Rightarrow> (string \<times> json) list \<Rightarrow> (string \<times> json) list" where
  "feature_css p ctx result =
     (if css ctx
      then in_object ''devDependencies''
             (\<lambda>s. assign s (assign [] (resolved_entries p [''postcss-cli'', ''videojs-generate-postcss-config''])))
             (in_object ''scripts'' (\<lambda>s. assign s (css_scripts ctx)) result)
      else result)"

definition feature_lang :: "package \<Rightarrow> gen_context \<Rightarrow> (string \<times> json) list \<Rightarrow> (string \<times> json) list" where
  "feature_lang p ctx result =
     (if lang ctx
      then in_object ''devDependencies'' (\<lambda>s. assign s (assign [] (resolved_entries p [''videojs-languages''])))
             (in_object ''scripts'' (set_prop ''build:lang'' (JStr ''vjslang --dir dist/lang'')) result)
      else result)"

definition build :: "env \<Rightarrow> json \<Rightarrow> gen_context \<Rightarrow> (string \<times> json) list" where
  "build e current ctx =
     normalize (feature_lang (pkg e) ctx (feature_css (pkg e) ctx (feature_docs (pkg e) ctx
       (strip_husky ctx (strip_prepush ctx (strip_precommit ctx
          (compose e (resolved_defaults (pkg e)) current ctx)))))))"

definition generated_keys :: "string list" where
  "generated_keys =
     [''name'', ''version'', ''description'', ''main'', ''module'', ''generator-videojs-plugin'',
      ''browserslist'', ''scripts'', ''engines'', ''keywords'', ''author'', ''license'',
      ''vjsstandard'', ''files'', ''husky'', ''lint-staged'', ''dependencies'', ''devDependencies'']"

definition merged_scripts :: "json \<Rightarrow> gen_context \<Rightarrow> (string \<times> json) list" where
  "merged_scripts current ctx =
     (let s0 = assign (assign [] (source_props (field current ''scripts''))) baseline_scripts;
          s1 = (if \<not> precommit ctx then delete_prop ''precommit'' s0 else s0);
          s2 = (if \<not> prepush ctx then delete_prop ''prepush'' s1 else s1);
          s3 = (if docs ctx then assign s2 docs_scripts else s2);
          s4 = (if css ctx then assign s3 (css_scripts ctx) else s3)
      in if lang ctx then set_prop ''build:lang'' (JStr ''vjslang --dir dist/lang'') s4 else s4)"

definition merged_devDependencies :: "package \<Rightarrow> json \<Rightarrow> gen_context \<Rightarrow> (string \<times> json) list" where
  "merged_devDependencies p current ctx =
     (let s0 = assign (assign [] (source_props (field current ''devDependencies'')))
                 (assign [] (resolved_entries p baseline_devDependencies));
          s1 = (if \<not> prepush ctx \<and> \<not> precommit ctx
                then delete_prop ''lint-staged'' (delete_prop ''husky'' s0) else s0);
          s2 = (if docs ctx then assign s1 (assign [] (resolved_entries p [''doctoc'', ''jsdoc''])) else s1);
          s3 = (if css ctx
                then assign s2 (assign [] (resolved_entries p
                       [''postcss-cli'', ''videojs-generate-postcss-config'']))
                else s2)
      in if lang ctx then assign s3 (assign [] (resolved_entries p [''videojs-languages''])) else s3)"

definition merged_dependencies :: "package \<Rightarrow> json \<Rightarrow> (string \<times> json) list" where
  "merged_dependencies p current =
     assign (assign [] (source_props (field current ''dependencies'')))
       (assign [] (resolved_entries p baseline_dependencies))"

definition merged_hooks :: "gen_context \<Rightarrow> (string \<times> json) list" where
  "merged_hooks ctx =
     (let h0 = [(''pre-commit'', JStr ''lint-staged''), (''pre-push'', JStr ''npm run test'')];
          h1 = (if \<not> precommit ctx then delete_prop ''pre-commit'' h0 else h0)
      in if \<not> prepush ctx then delete_prop ''pre-push'' h1 else h1)"

definition produced_scripts :: "gen_context \<Rightarrow> (string \<times> json) list" where
  "produced_scripts ctx =
     baseline_scripts
     @ (if docs ctx then docs_scripts else [])
     @ (if css ctx then css_scripts ctx else [])
     @ (if lang ctx then [(''build:lang'', JStr ''vjslang --dir dist/lang'')] else [])"

definition removed_scripts :: "gen_context \<Rightarrow> string list" where
  "removed_scripts ctx =
     (if \<not> precommit ctx then [''precommit''] else [])
     @ (if \<not> prepush ctx then [''prepush''] else [])"

definition produced_devDependencies :: "package \<Rightarrow> gen_context \<Rightarrow> (string \<times> json) list" where
  "produced_devDependencies p ctx =
     resolved_entries p
       (baseline_devDependencies
        @ (if docs ctx then [''doctoc'', ''jsdoc''] else [])
        @ (if css ctx then [''postcss-cli'', ''videojs-generate-postcss-config''] else [])
        @ (if lang ctx then [''videojs-languages''] else []))"

definition removed_devDependencies :: "gen_context \<Rightarrow> string list" where
  "removed_devDependencies ctx =
     (if \<not> prepush ctx \<and> \<not> precommit ctx then [''husky'', ''lint-staged''] else [])"

definition produced_dependencies :: "package \<Rightarrow> (string \<times> json) list" where
  "produced_dependencies p = resolved_entries p baseline_dependencies"

definition baseline_script_names :: "string list" where
  "baseline_script_names =
     [''prebuild'', ''build'', ''build:js'', ''clean'', ''postclean'', ''lint'', ''prepublishOnly'',
      ''start'', ''server'', ''pretest'', ''test'', ''test:verify'', ''test:unit'', ''posttest'',
      ''preversion'', ''version'', ''update-changelog'', ''watch'', ''watch:js'']"

definition in_registry :: "package \<Rightarrow> string \<Rightarrow> bool" where
  "in_registry p n =
     (n \<in> set (obj_keys (or_empty (optionalDependencies p)))
      \<or> n \<in> set (obj_keys (or_empty (devDependencies p)))
      \<or> n \<in> set (obj_keys (dependencies p)))"

definition example_env :: env where
  "example_env =
     \<lparr>pkg = \<lparr>optionalDependencies = None,
             devDependencies = Some (map (\<lambda>n. (n, ''^1.0.0''))
               (baseline_devDependencies
                @ [''doctoc'', ''jsdoc'', ''postcss-cli'', ''videojs-generate-postcss-config'',
                   ''videojs-languages''])),
             dependencies = [(''global'', ''^4.3.2''), (''video.js'', ''^7.0.0'')]\<rparr>,
      generatorVersion = ''7.6.3''\<rparr>"

definition example_context :: gen_context where
  "example_context =
     \<lparr>pluginName = ''videojs-example'', packageName = ''videojs-example'', version = ''1.0.0'',
      description = ''An example plugin'', author = ''Jane Doe'', licenseName = ''MIT'',
      docs = False, css = False, lang = False, precommit = False, prepush = False\<rparr>"

definition example_current :: json where
  "example_current =
     JObj [(''name'', JStr ''old-name''),
           (''private'', JBool True),
           (''scripts'',
              JObj [(''precommit'', JStr ''npm run lint''),
                    (''prepush'', JStr ''npm test''),
                    (''docs'', JStr ''echo docs''),
                    (''husky'', JStr ''husky install''),
                    (''deploy'', JStr ''./deploy.sh'')]),
           (''lint-staged'', JObj [(''*.css'', JArr [''stylelint''])]),
           (''keywords'', JArr [''streaming'', ''videojs'']),
           (''dependencies'', JObj [(''lodash'', JStr ''^4.17.0'')]),
           (''devDependencies'',
              JObj [(''husky'', JStr ''^0.14.3''), (''left-pad'', JStr ''^1.3.0'')])]"

definition nested_current :: json where
  "nested_current = JObj [(''scripts'', JObj [(''prepretest'', JStr ''echo first'')])]"

definition lifecycle_example :: "(string \<times> json) list" where
  "lifecycle_example =
     [(''postinstall'', JStr ''a''), (''test'', JStr ''b''), (''posttest'', JStr ''c''),
      (''prepublishOnly'', JStr ''d''), (''build'', JStr ''e''), (''pretest'', JStr ''f''),
      (''prebuild'', JStr ''g'')]"

definition example_env_without_jsdoc :: env where
  "example_env_without_jsdoc =
     \<lparr>pkg = \<lparr>optionalDependencies = None,
             devDependencies = Some (map (\<lambda>n. (n, ''^1.0.0''))
               (baseline_devDependencies @ [''doctoc''])),
             dependencies = [(''global'', ''^4.3.2''), (''video.js'', ''^7.0.0'')]\<rparr>,
      generatorVersion = ''7.6.3''\<rparr>"

section \<open>Lemmas\<close>

lemma obj_keys_Nil [simp]: "obj_keys [] = []"
  by (simp add: obj_keys_def)

lemma obj_keys_Cons [simp]: "obj_keys (p # ps) = fst p # obj_keys ps"
  by (simp add: obj_keys_def)

lemma obj_keys_append [simp]: "obj_keys (xs @ ys) = obj_keys xs @ obj_keys ys"
  by (simp add: obj_keys_def)

lemma obj_get_None_iff: "obj_get ob k = None \<longleftrightarrow> k \<notin> set (obj_keys ob)"
  by (induction ob) (auto simp: obj_keys_def split: option.splits)

lemma obj_get_NoneI [simp]: "k \<notin> set (obj_keys ob) \<Longrightarrow> obj_get ob k = None"
  by (simp add: obj_get_None_iff)

lemma obj_get_SomeD: "obj_get ob k = Some v \<Longrightarrow> k \<in> set (obj_keys ob)"
  using obj_get_None_iff[of ob k] by auto

lemma obj_get_append:
  "obj_get (xs @ ys) k = (case obj_get ys k of Some v \<Rightarrow> Some v | None \<Rightarrow> obj_get xs k)"
  by (induction xs) (auto split: option.splits)

lemma obj_get_distinct: "distinct (obj_keys ob) \<Longrightarrow> obj_get ob = map_of ob"
proof (induction ob)
  case Nil
  show ?case by (simp add: fun_eq_iff)
next
  case (Cons p ps)
  then have IH: "obj_get ps = map_of ps" and nin: "fst p \<notin> set (obj_keys ps)"
    by (simp_all add: obj_keys_def)
  show ?case
  proof
    fix k
    show "obj_get (p # ps) k = map_of (p # ps) k"
      using IH nin obj_get_None_iff[of ps "fst p"]
      by (cases p) (auto split: option.splits)
  qed
qed

lemma obj_get_map_upd:
  "obj_get (map (\<lambda>p. if fst p = k then (k, v) else p) ob) k' =
     (if k' = k then (if k \<in> set (obj_keys ob) then Some v else None) else obj_get ob k')"
  by (induction ob) (auto simp: obj_keys_def split: option.splits)

lemma map_fst_sort_key:
  "map fst (sort_key (\<lambda>p. f (fst p)) xs) = sort_key f (map fst xs)"
proof (induction xs)
  case Nil
  show ?case by simp
next
  case (Cons x xs)
  have ins: "map fst (insort_key (\<lambda>p. f (fst p)) x ys) = insort_key f (fst x) (map fst ys)" for ys
    by (induction ys) simp_all
  show ?case using Cons by (simp add: ins)
qed

lemma obj_keys_enumeration: "obj_keys (enumeration ob) = key_order (obj_keys ob)"
  by (simp add: enumeration_def key_order_def obj_keys_def map_fst_sort_key filter_map o_def)

lemma obj_get_filter_key: "obj_get ob k = obj_get (filter (\<lambda>p. fst p = k) ob) k"
  by (induction ob) (auto split: option.splits)

lemma filter_key_enumeration:
  "filter (\<lambda>p. fst p = k) (enumeration ob) = filter (\<lambda>p. fst p = k) ob"
proof (cases "is_index k")
  case True
  have a: "filter (\<lambda>p. fst p = k) (filter (\<lambda>p. is_index (fst p)) ob) = filter (\<lambda>p. fst p = k) ob"
    using True by (auto intro: filter_cong)
  have b: "filter (\<lambda>p. fst p = k) (filter (\<lambda>p. \<not> is_index (fst p)) ob) = []"
    using True by (auto simp: filter_empty_conv)
  have eq: "map (\<lambda>p. index_value (fst p)) (filter (\<lambda>p. fst p = k) ob) =
        map (\<lambda>p. index_value k) (filter (\<lambda>p. fst p = k) ob)"
    by simp
  have const: "sorted (map (\<lambda>p. index_value k) ys)" for ys :: "(string \<times> 'a) list"
    by (induction ys) simp_all
  have "sorted (map (\<lambda>p. index_value (fst p)) (filter (\<lambda>p. fst p = k) ob))"
    unfolding eq by (rule const)
  then have c: "sort_key (\<lambda>p. index_value (fst p)) (filter (\<lambda>p. fst p = k) ob) =
      filter (\<lambda>p. fst p = k) ob"
    by (rule sort_key_id_if_sorted)
  show ?thesis
    by (simp only: enumeration_def filter_append filter_sort a b c append_Nil2)
next
  case False
  have a: "filter (\<lambda>p. fst p = k) (filter (\<lambda>p. is_index (fst p)) ob) = []"
    using False by (auto simp: filter_empty_conv)
  have b: "filter (\<lambda>p. fst p = k) (filter (\<lambda>p. \<not> is_index (fst p)) ob) = filter (\<lambda>p. fst p = k) ob"
    using False by (auto intro: filter_cong)
  show ?thesis
    by (simp only: enumeration_def filter_append filter_sort a b sort_key_simps append_Nil)
qed

lemma obj_get_enumeration [simp]: "obj_get (enumeration ob) k = obj_get ob k"
  using obj_get_filter_key[of "enumeration ob" k] obj_get_filter_key[of ob k]
  by (simp only: filter_key_enumeration)

lemma set_key_order [simp]: "set (key_order ks) = set ks"
  by (auto simp: key_order_def)

lemma distinct_key_order [simp]: "distinct (key_order ks) = distinct ks"
proof -
  have "distinct (filter is_index ks) \<and> distinct (filter (\<lambda>k. \<not> is_index k) ks) \<longleftrightarrow> distinct ks"
    by (induction ks) auto
  then show ?thesis by (auto simp: key_order_def)
qed

lemma foldr_insort_sorted:
  "foldr (insort_key f) (insort_key f a ys) zs = insort_key f a (foldr (insort_key f) ys zs)"
proof (induction ys)
  case Nil
  show ?case by simp
next
  case (Cons y ys)
  show ?case
  proof (cases "f a \<le> f y")
    case True
    then show ?thesis by simp
  next
    case False
    then have ne: "f a \<noteq> f y" by simp
    have "foldr (insort_key f) (insort_key f a (y # ys)) zs =
          insort_key f y (insort_key f a (foldr (insort_key f) ys zs))"
      using False Cons by simp
    also have "\<dots> = insort_key f a (insort_key f y (foldr (insort_key f) ys zs))"
      using ne by (rule insort_key_left_comm[of f a y])
    finally show ?thesis by simp
  qed
qed

lemma sort_key_sort_key_append: "sort_key f (sort_key f xs @ ys) = sort_key f (xs @ ys)"
proof -
  have "foldr (insort_key f) (sort_key f xs) zs = foldr (insort_key f) xs zs" for zs
    by (induction xs) (simp_all add: foldr_insort_sorted)
  then show ?thesis by (simp add: sort_key_def)
qed

lemma key_order_append_left: "key_order (key_order xs @ ys) = key_order (xs @ ys)"
proof -
  have a: "filter is_index (sort_key index_value (filter is_index xs)) =
           sort_key index_value (filter is_index xs)"
    by (simp add: filter_sort)
  have b: "filter (\<lambda>k. \<not> is_index k) (sort_key index_value (filter is_index xs)) = []"
    by (simp add: filter_empty_conv)
  show ?thesis
    by (simp add: key_order_def a b sort_key_sort_key_append)
qed

lemma key_order_idem [simp]: "key_order (key_order xs) = key_order xs"
  using key_order_append_left[of xs "[]"] by simp

lemma filter_key_order: "filter P (key_order xs) = key_order (filter P xs)"
proof -
  have "filter is_index (filter P xs) = filter P (filter is_index xs)"
    "filter (\<lambda>k. \<not> is_index k) (filter P xs) = filter P (filter (\<lambda>k. \<not> is_index k) xs)"
    by (auto intro: filter_cong)
  then show ?thesis by (simp add: key_order_def filter_sort)
qed

lemma key_order_plain: "\<forall>k\<in>set ks. \<not> is_index k \<Longrightarrow> key_order ks = ks"
proof -
  assume a: "\<forall>k\<in>set ks. \<not> is_index k"
  then have "filter is_index ks = []" "filter (\<lambda>k. \<not> is_index k) ks = ks"
    by (auto simp: filter_empty_conv)
  then show ?thesis by (simp add: key_order_def)
qed

lemma filter_plain_key_order:
  assumes "\<And>k. P k \<Longrightarrow> \<not> is_index k"
  shows "filter P (key_order ks) = filter P ks"
proof -
  have "filter P (filter is_index ks) = []"
    using assms by (auto simp: filter_empty_conv)
  moreover have "filter P (filter (\<lambda>k. \<not> is_index k) ks) = filter P ks"
    using assms by (auto intro: filter_cong)
  ultimately show ?thesis by (simp add: key_order_def filter_sort)
qed

lemma obj_get_set_prop [simp]:
  "obj_get (set_prop k v ob) k' = (if k' = k then Some v else obj_get ob k')"
  by (auto simp: set_prop_def obj_get_map_upd obj_get_append)

lemma obj_keys_set_prop:
  "obj_keys (set_prop k v ob) =
     (if k \<in> set (obj_keys ob) then obj_keys ob else key_order (obj_keys ob @ [k]))"
  by (auto simp: set_prop_def obj_keys_enumeration) (auto simp: obj_keys_def intro!: map_idI)

lemma distinct_set_prop [simp]: "distinct (obj_keys ob) \<Longrightarrow> distinct (obj_keys (set_prop k v ob))"
  by (simp add: obj_keys_set_prop)

lemma set_keys_set_prop [simp]: "set (obj_keys (set_prop k v ob)) = insert k (set (obj_keys ob))"
  by (auto simp: obj_keys_set_prop)

lemma obj_get_delete_prop [simp]:
  "obj_get (delete_prop k ob) k' = (if k' = k then None else obj_get ob k')"
  by (induction ob) (auto simp: delete_prop_def split: option.splits)

lemma obj_keys_delete_prop: "obj_keys (delete_prop k ob) = filter (\<lambda>x. x \<noteq> k) (obj_keys ob)"
  by (induction ob) (auto simp: delete_prop_def obj_keys_def)

lemma distinct_delete_prop [simp]: "distinct (obj_keys ob) \<Longrightarrow> distinct (obj_keys (delete_prop k ob))"
  by (simp add: obj_keys_delete_prop)

lemma assign_Nil [simp]: "assign t [] = t"
  by (simp add: assign_def)

lemma assign_snoc: "assign t (s @ [p]) = set_prop (fst p) (snd p) (assign t s)"
  by (simp add: assign_def)

lemma assign_Cons: "assign t (p # s) = assign (set_prop (fst p) (snd p) t) s"
  by (simp add: assign_def)

lemma assign_append: "assign t (s1 @ s2) = assign (assign t s1) s2"
  by (simp add: assign_def)

lemma obj_get_append_if:
  "obj_get (xs @ ys) k = (if k \<in> set (obj_keys ys) then obj_get ys k else obj_get xs k)"
  using obj_get_None_iff[of ys k] by (auto simp: obj_get_append split: option.splits)

lemma obj_get_assign [simp]:
  "obj_get (assign t s) k = (if k \<in> set (obj_keys s) then obj_get s k else obj_get t k)"
proof (induction s rule: rev_induct)
  case Nil
  show ?case by simp
next
  case (snoc p s)
  show ?case
    using obj_get_None_iff[of s k]
    by (cases p) (auto simp: assign_snoc snoc obj_get_append split: option.splits)
qed

lemma distinct_assign [simp]: "distinct (obj_keys t) \<Longrightarrow> distinct (obj_keys (assign t s))"
  by (induction s rule: rev_induct) (simp_all add: assign_snoc)

lemma set_keys_assign [simp]: "set (obj_keys (assign t s)) = set (obj_keys t) \<union> set (obj_keys s)"
  by (induction s rule: rev_induct) (auto simp: assign_snoc)

lemma obj_ext:
  "distinct (obj_keys xs) \<Longrightarrow> obj_keys xs = obj_keys ys \<Longrightarrow>
   (\<And>k. obj_get xs k = obj_get ys k) \<Longrightarrow> xs = ys"
proof (induction xs arbitrary: ys)
  case Nil
  then show ?case by (cases ys) simp_all
next
  case (Cons p ps)
  then obtain q qs where ys: "ys = q # qs" by (cases ys) auto
  from Cons.prems ys have fk: "fst p = fst q" and ks: "obj_keys ps = obj_keys qs"
    and np: "fst p \<notin> set (obj_keys ps)" and d: "distinct (obj_keys ps)"
    by auto
  have nonep: "obj_get ps (fst p) = None" using np by (simp add: obj_get_None_iff)
  have noneq: "obj_get qs (fst p) = None" using np ks by (simp add: obj_get_None_iff)
  have "obj_get (p # ps) (fst p) = obj_get (q # qs) (fst p)" using Cons.prems(3) ys by simp
  then have sv: "snd p = snd q" using nonep noneq fk by simp
  have "obj_get ps k = obj_get qs k" for k
  proof (cases "k = fst p")
    case True
    then show ?thesis using nonep noneq by simp
  next
    case False
    have "obj_get (p # ps) k = obj_get (q # qs) k" using Cons.prems(3) ys by simp
    then show ?thesis using False fk by (auto split: option.splits)
  qed
  then have "ps = qs" using Cons.IH[OF d ks] by simp
  then show ?case using ys fk sv by (simp add: prod_eq_iff)
qed

lemma pick_Nil [simp]: "pick s [] = []"
  by (simp add: pick_def)

lemma pick_snoc:
  "pick s (ps @ [k]) = (case obj_get s k of Some v \<Rightarrow> set_prop k v (pick s ps) | None \<Rightarrow> pick s ps)"
  by (simp add: pick_def split: option.splits)

lemma obj_get_pick [simp]: "obj_get (pick s ps) k = (if k \<in> set ps then obj_get s k else None)"
  by (induction ps rule: rev_induct) (auto simp: pick_snoc split: option.splits)

lemma distinct_pick [simp]: "distinct (obj_keys (pick s ps))"
  by (induction ps rule: rev_induct) (auto simp: pick_snoc split: option.splits)

lemma set_keys_pick: "set ps \<subseteq> set (obj_keys s) \<Longrightarrow> set (obj_keys (pick s ps)) = set ps"
proof (induction ps rule: rev_induct)
  case Nil
  show ?case by simp
next
  case (snoc k ps)
  then have IH: "set (obj_keys (pick s ps)) = set ps" and k: "k \<in> set (obj_keys s)"
    by auto
  from k obtain v where v: "obj_get s k = Some v"
    using obj_get_None_iff[of s k] by (cases "obj_get s k") auto
  show ?case using IH v by (simp add: pick_snoc)
qed

lemma obj_keys_pick:
  "distinct ps \<Longrightarrow> set ps \<subseteq> set (obj_keys s) \<Longrightarrow> obj_keys (pick s ps) = key_order ps"
proof (induction ps rule: rev_induct)
  case Nil
  show ?case by (simp add: key_order_def)
next
  case (snoc k ps)
  then have IH: "obj_keys (pick s ps) = key_order ps" and k: "k \<in> set (obj_keys s)"
    and nk: "k \<notin> set ps"
    by auto
  from k obtain v where v: "obj_get s k = Some v"
    using obj_get_None_iff[of s k] by (cases "obj_get s k") auto
  show ?case using IH nk v by (simp add: pick_snoc obj_keys_set_prop key_order_append_left)
qed

lemma pick_cong: "(\<And>k. k \<in> set ps \<Longrightarrow> obj_get s k = obj_get s' k) \<Longrightarrow> pick s ps = pick s' ps"
  by (induction ps rule: rev_induct) (auto simp: pick_snoc split: option.splits)

lemma obj_get_alphabetizeObject [simp]: "obj_get (alphabetizeObject s) k = obj_get s k"
  by (auto simp: alphabetizeObject_def obj_get_NoneI)

lemma distinct_alphabetizeObject [simp]: "distinct (obj_keys (alphabetizeObject s))"
  by (simp add: alphabetizeObject_def)

lemma obj_keys_alphabetizeObject:
  "distinct (obj_keys s) \<Longrightarrow> obj_keys (alphabetizeObject s) = key_order (sort (obj_keys s))"
  by (simp add: alphabetizeObject_def obj_keys_pick)

lemma alphabetizeObject_cong:
  assumes "distinct (obj_keys s)" "distinct (obj_keys s')" "\<And>k. obj_get s k = obj_get s' k"
  shows "alphabetizeObject s = alphabetizeObject s'"
proof -
  have "k \<in> set (obj_keys s) \<longleftrightarrow> k \<in> set (obj_keys s')" for k
    using assms(3)[of k] obj_get_None_iff[of s k] obj_get_None_iff[of s' k] by simp
  then have "set (obj_keys s) = set (obj_keys s')" by blast
  moreover have "sorted (sort (obj_keys s))" "sorted (sort (obj_keys s'))"
    "distinct (sort (obj_keys s))" "distinct (sort (obj_keys s'))"
    using assms(1,2) by simp_all
  ultimately have "sort (obj_keys s) = sort (obj_keys s')"
    using sorted_distinct_set_unique[of "sort (obj_keys s)" "sort (obj_keys s')"] by simp
  moreover have "pick s (sort (obj_keys s')) = pick s' (sort (obj_keys s'))"
    by (rule pick_cong) (rule assms(3))
  ultimately show ?thesis
    by (simp add: alphabetizeObject_def)
qed

lemma set_splice_in [simp]: "set (splice_in xs i x) = insert x (set xs)"
proof -
  have "set (take i xs) \<union> set (drop i xs) = set (take i xs @ drop i xs)"
    by (rule set_append[symmetric])
  also have "\<dots> = set xs"
    by (simp only: append_take_drop_id)
  finally have "set (take i xs) \<union> set (drop i xs) = set xs" .
  then show ?thesis unfolding splice_in_def by auto
qed

lemma distinct_splice_in: "distinct xs \<Longrightarrow> x \<notin> set xs \<Longrightarrow> distinct (splice_in xs i x)"
proof -
  assume d: "distinct xs" and x: "x \<notin> set xs"
  have "x \<notin> set (take i xs)" "x \<notin> set (drop i xs)"
    using x in_set_takeD in_set_dropD by fast+
  then show ?thesis
    using d by (simp add: splice_in_def set_take_disj_set_drop_if_distinct)
qed

lemma set_inject [simp]: "set (inject order pp) = insert pp (set order)"
  by (auto simp: inject_def Let_def split: option.splits)

lemma distinct_inject: "distinct order \<Longrightarrow> pp \<notin> set order \<Longrightarrow> distinct (inject order pp)"
  by (auto simp: inject_def Let_def distinct_splice_in split: option.splits)

lemma set_foldl_inject [simp]: "set (foldl inject order ps) = set order \<union> set ps"
  by (induction ps arbitrary: order) auto

lemma distinct_foldl_inject:
  "distinct order \<Longrightarrow> distinct ps \<Longrightarrow> set order \<inter> set ps = {} \<Longrightarrow> distinct (foldl inject order ps)"
proof (induction ps arbitrary: order)
  case Nil
  then show ?case by simp
next
  case (Cons p ps)
  have "distinct (inject order p)" using Cons.prems by (intro distinct_inject) auto
  moreover have "set (inject order p) \<inter> set ps = {}" using Cons.prems by auto
  ultimately show ?case using Cons.IH[of "inject order p"] Cons.prems by simp
qed

lemma set_scriptOrder [simp]: "set (scriptOrder ks) = set ks"
  by (auto simp: scriptOrder_def Let_def difference_def)

lemma distinct_scriptOrder [simp]: "distinct ks \<Longrightarrow> distinct (scriptOrder ks)"
  by (auto simp: scriptOrder_def Let_def difference_def intro!: distinct_foldl_inject)

lemma obj_get_alphabetizeScripts [simp]: "obj_get (alphabetizeScripts s) k = obj_get s k"
  by (auto simp: alphabetizeScripts_def obj_get_NoneI)

lemma distinct_alphabetizeScripts [simp]: "distinct (obj_keys (alphabetizeScripts s))"
  by (simp add: alphabetizeScripts_def)

lemma obj_keys_alphabetizeScripts:
  "distinct (obj_keys s) \<Longrightarrow>
   obj_keys (alphabetizeScripts s) = key_order (scriptOrder (obj_keys s))"
  by (simp add: alphabetizeScripts_def obj_keys_pick)

lemma inject_alt:
  "inject order pp =
     (case indexOf order (core_name pp) of
        Some i \<Rightarrow> splice_in order (if startsWith pp ''pre'' then i else i + 1) pp
      | None \<Rightarrow> order @ [pp])"
  by (simp add: inject_def core_name_def Let_def)

lemma isPrePost_pre [simp]: "isPrePost (pre_name c)"
  by (simp add: isPrePost_def startsWith_def pre_name_def)

lemma isPrePost_post [simp]: "isPrePost (post_name c)"
  by (simp add: isPrePost_def startsWith_def post_name_def)

lemma startsWith_pre_pre [simp]: "startsWith (pre_name c) ''pre''"
  by (simp add: startsWith_def pre_name_def)

lemma startsWith_post_pre [simp]: "\<not> startsWith (post_name c) ''pre''"
  by (simp add: startsWith_def post_name_def)

lemma core_name_pre [simp]: "core_name (pre_name c) = c"
  by (simp add: core_name_def substr_def) (simp add: pre_name_def)

lemma core_name_post [simp]: "core_name (post_name c) = c"
  by (simp add: core_name_def substr_def) (simp add: post_name_def)

lemma pre_neq_post [simp]: "pre_name a \<noteq> post_name b" "post_name b \<noteq> pre_name a"
  by (simp_all add: pre_name_def post_name_def)

lemma isPrePost_cases:
  assumes "isPrePost pp"
  obtains (pre) "pp = pre_name (core_name pp)" | (post) "pp = post_name (core_name pp)"
proof (cases "startsWith pp ''pre''")
  case True
  then have "take (length ''pre'') pp = ''pre''" by (simp only: startsWith_def)
  then have "pp = ''pre'' @ drop (length ''pre'') pp"
    using append_take_drop_id[of "length ''pre''" pp] by simp
  then have "pp = pre_name (core_name pp)"
    using True by (simp add: core_name_def substr_def pre_name_def eval_nat_numeral)
  then show ?thesis by (rule pre)
next
  case False
  then have "startsWith pp ''post''" using assms by (simp add: isPrePost_def)
  then have "take (length ''post'') pp = ''post''" by (simp only: startsWith_def)
  then have "pp = ''post'' @ drop (length ''post'') pp"
    using append_take_drop_id[of "length ''post''" pp] by simp
  then have "pp = post_name (core_name pp)"
    using False by (simp add: core_name_def substr_def post_name_def eval_nat_numeral)
  then show ?thesis by (rule post)
qed

lemma indexOf_first: "x \<notin> set xs \<Longrightarrow> indexOf (xs @ x # ys) x = Some (length xs)"
  by (induction xs) auto

lemma indexOf_None: "x \<notin> set xs \<Longrightarrow> indexOf xs x = None"
  by (induction xs) auto

lemma splice_in_at: "splice_in (xs @ ys) (length xs) y = xs @ y # ys"
  by (simp add: splice_in_def)

lemma inject_pre: "c \<notin> set xs \<Longrightarrow> inject (xs @ c # ys) (pre_name c) = xs @ (pre_name c) # c # ys"
  by (simp add: inject_alt indexOf_first splice_in_at)

lemma inject_post:
  assumes "c \<notin> set xs"
  shows "inject (xs @ c # ys) (post_name c) = xs @ c # (post_name c) # ys"
proof -
  have "splice_in ((xs @ [c]) @ ys) (length (xs @ [c])) (post_name c) = (xs @ [c]) @ (post_name c) # ys"
    by (rule splice_in_at)
  then show ?thesis using assms by (simp add: inject_alt indexOf_first)
qed

lemma inject_orphan: "core_name pp \<notin> set order \<Longrightarrow> inject order pp = order @ [pp]"
  by (simp add: inject_alt indexOf_None)

lemma set_blocks: "set (concat (map (lifecycle_block Q) A)) \<subseteq> set A \<union> set Q"
  by (auto simp: lifecycle_block_def)

lemma block_snoc_other:
  "core_name pp \<noteq> a \<Longrightarrow> lifecycle_block (Q @ [pp]) a = lifecycle_block Q a"
  by (auto simp: lifecycle_block_def)

lemma blocks_snoc_other:
  "core_name pp \<notin> set A \<Longrightarrow> map (lifecycle_block (Q @ [pp])) A = map (lifecycle_block Q) A"
  by (induction A) (auto simp: block_snoc_other)

lemma inject_paired:
  assumes pp: "isPrePost pp" and nQ: "pp \<notin> set Q" and cQ: "core_name pp \<notin> set Q"
    and Q: "\<forall>q \<in> set Q. isPrePost q" and N: "\<forall>c \<in> set N. \<not> isPrePost c" and dN: "distinct N"
  shows "inject (paired_order N Q) pp = paired_order N (Q @ [pp])"
proof (cases "core_name pp \<in> set N")
  case False
  have "core_name pp \<notin> set (paired_order N Q)"
    using False cQ set_blocks[of Q N] by (auto simp: paired_order_def)
  then have "inject (paired_order N Q) pp = paired_order N Q @ [pp]"
    by (rule inject_orphan)
  also have "\<dots> = paired_order N (Q @ [pp])"
    using False by (simp add: paired_order_def blocks_snoc_other)
  finally show ?thesis .
next
  case True
  define c where "c = core_name pp"
  from True obtain A B where split: "N = A @ c # B" and cA: "c \<notin> set A"
    unfolding c_def by (meson split_list_first)
  have cB: "c \<notin> set B" using dN split by simp
  have cnp: "\<not> isPrePost c" using N True c_def by simp
  have cX: "c \<notin> set (concat (map (lifecycle_block Q) A))"
    using set_blocks[of Q A] cA Q cnp by auto
  have cF: "c \<notin> set (filter (\<lambda>k. k = pre_name c) Q)"
    using Q cnp by auto
  have mapA: "map (lifecycle_block (Q @ [pp])) A = map (lifecycle_block Q) A"
    using cA by (simp add: blocks_snoc_other c_def)
  have mapB: "map (lifecycle_block (Q @ [pp])) B = map (lifecycle_block Q) B"
    using cB by (simp add: blocks_snoc_other c_def)
  have orph: "filter (\<lambda>k. core_name k \<notin> set N) (Q @ [pp]) = filter (\<lambda>k. core_name k \<notin> set N) Q"
    using True by simp
  from pp show ?thesis
  proof (cases rule: isPrePost_cases)
    case pre
    then have ppc: "pp = pre_name c" by (simp add: c_def)
    have none: "filter (\<lambda>k. k = pre_name c) Q = []"
      using nQ ppc by (auto simp: filter_empty_conv)
    have "paired_order N Q =
        concat (map (lifecycle_block Q) A) @ c #
          (filter (\<lambda>k. k = post_name c) Q @ concat (map (lifecycle_block Q) B)
            @ filter (\<lambda>k. core_name k \<notin> set N) Q)"
      by (simp add: paired_order_def split lifecycle_block_def none)
    then have "inject (paired_order N Q) pp =
        concat (map (lifecycle_block Q) A) @ (pre_name c) # c #
          (filter (\<lambda>k. k = post_name c) Q @ concat (map (lifecycle_block Q) B)
            @ filter (\<lambda>k. core_name k \<notin> set N) Q)"
      using inject_pre[OF cX] ppc by simp
    also have "\<dots> = paired_order N (Q @ [pp])"
      unfolding paired_order_def orph
      by (simp add: split mapA mapB) (simp add: lifecycle_block_def none ppc)
    finally show ?thesis .
  next
    case post
    then have ppc: "pp = post_name c" by (simp add: c_def)
    have none: "filter (\<lambda>k. k = post_name c) Q = []"
      using nQ ppc by (auto simp: filter_empty_conv)
    have cX': "c \<notin> set (concat (map (lifecycle_block Q) A) @ filter (\<lambda>k. k = pre_name c) Q)"
      using cX cF by simp
    have "paired_order N Q =
        (concat (map (lifecycle_block Q) A) @ filter (\<lambda>k. k = pre_name c) Q) @ c #
          (concat (map (lifecycle_block Q) B) @ filter (\<lambda>k. core_name k \<notin> set N) Q)"
      by (simp add: paired_order_def split lifecycle_block_def none)
    then have "inject (paired_order N Q) pp =
        (concat (map (lifecycle_block Q) A) @ filter (\<lambda>k. k = pre_name c) Q) @ c # (post_name c) #
          (concat (map (lifecycle_block Q) B) @ filter (\<lambda>k. core_name k \<notin> set N) Q)"
      using inject_post[OF cX'] ppc by simp
    also have "\<dots> = paired_order N (Q @ [pp])"
      unfolding paired_order_def orph
      by (simp add: split mapA mapB) (simp add: lifecycle_block_def none ppc)
    finally show ?thesis .
  qed
qed

lemma foldl_inject_paired:
  "\<lbrakk>distinct (Q @ P); \<forall>q \<in> set (Q @ P). isPrePost q \<and> core_name q \<notin> set (Q @ P);
    \<forall>c \<in> set N. \<not> isPrePost c; distinct N\<rbrakk>
   \<Longrightarrow> foldl inject (paired_order N Q) P = paired_order N (Q @ P)"
proof (induction P arbitrary: Q)
  case Nil
  show ?case by simp
next
  case (Cons pp P)
  have step: "inject (paired_order N Q) pp = paired_order N (Q @ [pp])"
    using Cons.prems by (intro inject_paired) auto
  have "foldl inject (paired_order N (Q @ [pp])) P = paired_order N ((Q @ [pp]) @ P)"
    using Cons.prems by (intro Cons.IH) auto
  then show ?case using step by simp
qed

lemma paired_order_Nil: "paired_order N [] = N"
  by (induction N) (auto simp: paired_order_def lifecycle_block_def)

lemma filter_eq_distinct: "distinct xs \<Longrightarrow> filter (\<lambda>k. k = x) xs = (if x \<in> set xs then [x] else [])"
  by (induction xs) auto

lemma scriptOrder_paired:
  assumes d: "distinct ks" and u: "unnested ks"
  shows "scriptOrder ks = paired_order (sort (filter (\<lambda>k. \<not> isPrePost k) ks)) (filter isPrePost ks)"
proof -
  let ?P = "filter isPrePost ks" and ?N = "sort (filter (\<lambda>k. \<not> isPrePost k) ks)"
  have diff: "difference ks ?P = filter (\<lambda>k. \<not> isPrePost k) ks"
    unfolding difference_def by (rule filter_cong) auto
  have "foldl inject (paired_order ?N []) ?P = paired_order ?N ([] @ ?P)"
  proof (rule foldl_inject_paired)
    show "distinct ([] @ ?P)" using d by simp
    show "\<forall>q \<in> set ([] @ ?P). isPrePost q \<and> core_name q \<notin> set ([] @ ?P)"
      using u by (auto simp: unnested_def)
    show "\<forall>c \<in> set ?N. \<not> isPrePost c" by simp
    show "distinct ?N" using d by simp
  qed
  then show ?thesis
    by (simp add: scriptOrder_def Let_def diff paired_order_Nil)
qed

lemma block_filter:
  assumes d: "distinct ks"
  shows "lifecycle_block (filter isPrePost ks) c =
    (if pre_name c \<in> set ks then [pre_name c] else []) @ [c]
      @ (if post_name c \<in> set ks then [post_name c] else [])"
proof -
  have "filter (\<lambda>k. k = pre_name c) (filter isPrePost ks) = filter (\<lambda>k. k = pre_name c) ks"
    unfolding filter_filter by (rule filter_cong) auto
  moreover have "filter (\<lambda>k. k = post_name c) (filter isPrePost ks) = filter (\<lambda>k. k = post_name c) ks"
    unfolding filter_filter by (rule filter_cong) auto
  ultimately show ?thesis
    using d by (simp add: lifecycle_block_def filter_eq_distinct)
qed

lemma scriptOrder_lifecycle:
  assumes d: "distinct ks" and u: "unnested ks"
  shows "scriptOrder ks = lifecycle_order ks"
proof -
  let ?N = "sort (filter (\<lambda>k. \<not> isPrePost k) ks)"
  have orph: "filter (\<lambda>k. core_name k \<notin> set ?N) (filter isPrePost ks)
      = filter (\<lambda>k. isPrePost k \<and> core_name k \<notin> set ks) ks"
    unfolding filter_filter using u by (intro filter_cong) (auto simp: unnested_def)
  have meq: "map (lifecycle_block (filter isPrePost ks)) ?N =
      map (\<lambda>c. (if pre_name c \<in> set ks then [pre_name c] else []) @ [c]
                  @ (if post_name c \<in> set ks then [post_name c] else [])) ?N"
    by (rule map_cong) (simp_all add: block_filter[OF d])
  show ?thesis
    by (simp only: scriptOrder_paired[OF d u] paired_order_def lifecycle_order_def orph meq)
qed

lemma unnested_cong: "set ks' = set ks \<Longrightarrow> unnested ks' = unnested ks"
  by (simp add: unnested_def)

lemma lifecycle_order_cong:
  assumes s: "set ks' = set ks" and d: "distinct ks" and d': "distinct ks'"
    and o: "filter (\<lambda>k. isPrePost k \<and> core_name k \<notin> set ks) ks'
            = filter (\<lambda>k. isPrePost k \<and> core_name k \<notin> set ks) ks"
  shows "lifecycle_order ks' = lifecycle_order ks"
proof -
  let ?N = "sort (filter (\<lambda>k. \<not> isPrePost k) ks)" and ?N' = "sort (filter (\<lambda>k. \<not> isPrePost k) ks')"
  have "set ?N' = set ?N" using s by simp
  moreover have "sorted ?N'" "sorted ?N" "distinct ?N'" "distinct ?N" using d d' by simp_all
  ultimately have "?N' = ?N" using sorted_distinct_set_unique[of ?N' ?N] by simp
  then show ?thesis
    unfolding lifecycle_order_def using s o by simp
qed

lemma scriptOrder_cong:
  assumes s: "set ks' = set ks" and d: "distinct ks" and d': "distinct ks'" and u: "unnested ks"
    and o: "filter (\<lambda>k. isPrePost k \<and> core_name k \<notin> set ks) ks'
            = filter (\<lambda>k. isPrePost k \<and> core_name k \<notin> set ks) ks"
  shows "scriptOrder ks' = scriptOrder ks"
proof -
  have u': "unnested ks'" using u unnested_cong[OF s] by simp
  show ?thesis
    unfolding scriptOrder_lifecycle[OF d u] scriptOrder_lifecycle[OF d' u']
    by (rule lifecycle_order_cong[OF s d d' o])
qed

lemma orphans_block:
  assumes "\<not> isPrePost c" "c \<in> set ks"
  shows "filter (\<lambda>k. isPrePost k \<and> core_name k \<notin> set ks)
           ((if pre_name c \<in> set ks then [pre_name c] else []) @ [c]
              @ (if post_name c \<in> set ks then [post_name c] else [])) = []"
  using assms by simp

lemma orphans_lifecycle_order:
  "filter (\<lambda>k. isPrePost k \<and> core_name k \<notin> set ks) (lifecycle_order ks)
     = filter (\<lambda>k. isPrePost k \<and> core_name k \<notin> set ks) ks"
proof -
  let ?O = "\<lambda>k. isPrePost k \<and> core_name k \<notin> set ks"
  let ?B = "\<lambda>c. (if pre_name c \<in> set ks then [pre_name c] else []) @ [c]
                        @ (if post_name c \<in> set ks then [post_name c] else [])"
  let ?N = "sort (filter (\<lambda>k. \<not> isPrePost k) ks)"
  have "\<forall>c \<in> set ?N. filter ?O (?B c) = []"
  proof
    fix c assume "c \<in> set ?N"
    then have "\<not> isPrePost c" "c \<in> set ks" by simp_all
    then show "filter ?O (?B c) = []" by (rule orphans_block)
  qed
  then have "concat (map (filter ?O) (map ?B ?N)) = []"
    by (simp only: concat_eq_Nil_conv set_map) blast
  then have "filter ?O (concat (map ?B ?N)) = []"
    by (simp only: filter_concat)
  moreover have "filter ?O (filter ?O ks) = filter ?O ks"
    by simp
  ultimately show ?thesis
    by (simp only: lifecycle_order_def filter_append append_Nil)
qed

lemma scriptOrder_idem:
  assumes d: "distinct ks" and u: "unnested ks"
  shows "scriptOrder (scriptOrder ks) = scriptOrder ks"
proof (rule scriptOrder_cong[OF _ d _ u])
  show "set (scriptOrder ks) = set ks" by simp
  show "distinct (scriptOrder ks)" using d by simp
  show "filter (\<lambda>k. isPrePost k \<and> core_name k \<notin> set ks) (scriptOrder ks)
      = filter (\<lambda>k. isPrePost k \<and> core_name k \<notin> set ks) ks"
    unfolding scriptOrder_lifecycle[OF d u] by (rule orphans_lifecycle_order)
qed

lemma isPrePost_not_index: "isPrePost k \<Longrightarrow> \<not> is_index k"
  by (cases k) (auto simp: isPrePost_def startsWith_def is_index_def is_digit_def)

lemma scriptOrder_enumerated:
  assumes d: "distinct ks" and u: "unnested ks"
  shows "scriptOrder (key_order (scriptOrder ks)) = scriptOrder ks"
proof (rule scriptOrder_cong[OF _ d _ u])
  show "set (key_order (scriptOrder ks)) = set ks" by simp
  show "distinct (key_order (scriptOrder ks))" using d by simp
  have "filter (\<lambda>k. isPrePost k \<and> core_name k \<notin> set ks) (key_order (scriptOrder ks))
      = filter (\<lambda>k. isPrePost k \<and> core_name k \<notin> set ks) (scriptOrder ks)"
    by (rule filter_plain_key_order) (simp add: isPrePost_not_index)
  also have "\<dots> = filter (\<lambda>k. isPrePost k \<and> core_name k \<notin> set ks) ks"
    unfolding scriptOrder_lifecycle[OF d u] by (rule orphans_lifecycle_order)
  finally show "filter (\<lambda>k. isPrePost k \<and> core_name k \<notin> set ks) (key_order (scriptOrder ks))
      = filter (\<lambda>k. isPrePost k \<and> core_name k \<notin> set ks) ks" .
qed

lemma find_append':
  "find P (xs @ ys) = (case find P xs of Some x \<Rightarrow> Some x | None \<Rightarrow> find P ys)"
  by (induction xs) auto

lemma resolved_entries_Nil [simp]: "resolved_entries p [] = []"
  by (simp add: resolved_entries_def)

lemma resolved_entries_Cons [simp]:
  "resolved_entries p (n # names) = (n, JStr (version_of p n)) # resolved_entries p names"
  by (simp add: resolved_entries_def)

lemma obj_keys_resolved_entries [simp]: "obj_keys (resolved_entries p names) = names"
  by (induction names) simp_all

lemma reduce_versions_eq:
  "reduce_versions p acc names =
     (case find (\<lambda>n. \<not> resolves p n) names of
        Some n \<Rightarrow> Inl (unresolved n)
      | None \<Rightarrow> Inr (assign acc (resolved_entries p names)))"
proof (induction names arbitrary: acc)
  case Nil
  show ?case by simp
next
  case (Cons n names)
  show ?case
  proof (cases "getGeneratorVersion p n")
    case None
    then show ?thesis by (simp add: resolves_def truthy_version_def)
  next
    case (Some v)
    show ?thesis
    proof (cases "v = []")
      case True
      then show ?thesis using Some by (simp add: resolves_def truthy_version_def)
    next
      case False
      then have r: "resolves p n" and v: "version_of p n = v"
        using Some by (simp_all add: resolves_def truthy_version_def version_of_def)
      show ?thesis using Some False r v by (simp add: Cons assign_Cons split: option.splits)
    qed
  qed
qed

lemma getGeneratorVersions_eq:
  "getGeneratorVersions p names =
     (case find (\<lambda>n. \<not> resolves p n) names of
        Some n \<Rightarrow> Inl (unresolved n)
      | None \<Rightarrow> Inr (assign [] (resolved_entries p names)))"
  by (simp add: getGeneratorVersions_def reduce_versions_eq)

lemma DEFAULTS_eq:
  "DEFAULTS p =
     (case find (\<lambda>n. \<not> resolves p n) (baseline_dependencies @ baseline_devDependencies) of
        Some n \<Rightarrow> Inl (unresolved n)
      | None \<Rightarrow> Inr (resolved_defaults p))"
  by (simp add: DEFAULTS_def getGeneratorVersions_eq find_append' resolved_defaults_def
      split: option.splits)

lemma add_docs_eq:
  "add_docs p ctx result =
     (case find (\<lambda>n. \<not> resolves p n) (if docs ctx then [''doctoc'', ''jsdoc''] else []) of
        Some n \<Rightarrow> Inl (unresolved n)
      | None \<Rightarrow> Inr (feature_docs p ctx result))"
  by (simp add: add_docs_def getGeneratorVersions_eq feature_docs_def Let_def
      split: option.splits)

lemma add_css_eq:
  "add_css p ctx result =
     (case find (\<lambda>n. \<not> resolves p n)
             (if css ctx then [''postcss-cli'', ''videojs-generate-postcss-config''] else []) of
        Some n \<Rightarrow> Inl (unresolved n)
      | None \<Rightarrow> Inr (feature_css p ctx result))"
  by (simp add: add_css_def getGeneratorVersions_eq feature_css_def Let_def
      split: option.splits)

lemma add_lang_eq:
  "add_lang p ctx result =
     (case find (\<lambda>n. \<not> resolves p n) (if lang ctx then [''videojs-languages''] else []) of
        Some n \<Rightarrow> Inl (unresolved n)
      | None \<Rightarrow> Inr (feature_lang p ctx result))"
  by (simp add: add_lang_def getGeneratorVersions_eq feature_lang_def Let_def
      split: option.splits)

lemma packageJSON_eq:
  "packageJSON e current ctx =
     (case find (\<lambda>n. \<not> resolves (pkg e) n) (requested ctx) of
        Some n \<Rightarrow> Inl (unresolved n)
      | None \<Rightarrow> Inr (build e (current_or_empty current) ctx))"
  unfolding packageJSON_def DEFAULTS_eq add_docs_eq add_css_eq add_lang_eq requested_def
    find_append' build_def Let_def
  by (simp split: option.splits)

lemma on_object_JObj [simp]: "on_object f (JObj kvs) = JObj (f kvs)"
  by (simp add: on_object_def)

lemma on_array_JArr [simp]: "on_array f (JArr xs) = JArr (f xs)"
  by (simp add: on_array_def)

lemma obj_get_map_entry:
  "obj_get (map (\<lambda>p. if fst p = k then (fst p, g (snd p)) else p) ob) k' =
     (if k' = k then map_option g (obj_get ob k) else obj_get ob k')"
  by (induction ob) (auto split: option.splits)

lemma obj_get_in_object [simp]:
  "obj_get (in_object k f ob) k' =
     (if k' = k then map_option (on_object f) (obj_get ob k) else obj_get ob k')"
  unfolding in_object_def by (rule obj_get_map_entry)

lemma obj_get_in_array [simp]:
  "obj_get (in_array k f ob) k' =
     (if k' = k then map_option (on_array f) (obj_get ob k) else obj_get ob k')"
  unfolding in_array_def by (rule obj_get_map_entry)

lemma obj_keys_in_object [simp]: "obj_keys (in_object k f ob) = obj_keys ob"
  by (induction ob) (auto simp: in_object_def)

lemma obj_keys_in_array [simp]: "obj_keys (in_array k f ob) = obj_keys ob"
  by (induction ob) (auto simp: in_array_def)

lemma obj_keys_generated [simp]: "obj_keys (generated_fields e d current ctx) = generated_keys"
  by (simp add: generated_fields_def generated_keys_def)

lemma distinct_generated_keys: "distinct generated_keys"
  by (simp add: generated_keys_def)

lemma generated_scripts:
  "obj_get (generated_fields e d current ctx) ''scripts'' =
     Some (JObj (assign (assign [] (source_props (field current ''scripts''))) baseline_scripts))"
  by (simp add: generated_fields_def)

lemma generated_devDependencies:
  "obj_get (generated_fields e d current ctx) ''devDependencies'' =
     Some (JObj (assign (assign [] (source_props (field current ''devDependencies'')))
                 (default_devDependencies d)))"
  by (simp add: generated_fields_def)

lemma generated_dependencies:
  "obj_get (generated_fields e d current ctx) ''dependencies'' =
     Some (JObj (assign (assign [] (source_props (field current ''dependencies'')))
                 (default_dependencies d)))"
  by (simp add: generated_fields_def)

lemma generated_husky:
  "obj_get (generated_fields e d current ctx) ''husky'' =
     Some (JObj [(''hooks'',
                JObj [(''pre-commit'', JStr ''lint-staged''),
                      (''pre-push'', JStr ''npm run test'')])])"
  by (simp add: generated_fields_def)

lemma build_scripts:
  "obj_get (build e current ctx) ''scripts'' = Some (JObj (alphabetizeScripts (merged_scripts current ctx)))"
  by (simp add: build_def normalize_def Let_def object_at_def feature_lang_def feature_css_def
      feature_docs_def strip_husky_def strip_prepush_def strip_precommit_def compose_def generated_keys_def
      generated_scripts merged_scripts_def)

lemma build_devDependencies:
  "obj_get (build e current ctx) ''devDependencies'' =
     Some (JObj (alphabetizeObject (merged_devDependencies (pkg e) current ctx)))"
  by (simp add: build_def normalize_def Let_def object_at_def feature_lang_def feature_css_def
      feature_docs_def strip_husky_def strip_prepush_def strip_precommit_def compose_def generated_keys_def
      generated_devDependencies merged_devDependencies_def resolved_defaults_def)

lemma build_dependencies:
  "obj_get (build e current ctx) ''dependencies'' =
     Some (JObj (alphabetizeObject (merged_dependencies (pkg e) current)))"
  by (simp add: build_def normalize_def Let_def object_at_def feature_lang_def feature_css_def
      feature_docs_def strip_husky_def strip_prepush_def strip_precommit_def compose_def generated_keys_def
      generated_dependencies merged_dependencies_def resolved_defaults_def)

lemma in_object_Nil: "in_object k f [] = []"
  by (simp add: in_object_def)

lemma in_object_Cons:
  "in_object k f (p # ps) = (if fst p = k then (fst p, on_object f (snd p)) else p) # in_object k f ps"
  by (simp add: in_object_def)

lemma delete_prop_Nil: "delete_prop k [] = []"
  by (simp add: delete_prop_def)

lemma delete_prop_Cons:
  "delete_prop k (p # ps) = (if fst p \<noteq> k then p # delete_prop k ps else delete_prop k ps)"
  by (simp add: delete_prop_def)

lemma build_husky:
  "obj_get (build e current ctx) ''husky'' = Some (JObj [(''hooks'', JObj (merged_hooks ctx))])"
  by (simp add: build_def normalize_def Let_def object_at_def feature_lang_def feature_css_def
      feature_docs_def strip_husky_def strip_prepush_def strip_precommit_def compose_def generated_keys_def
      generated_husky merged_hooks_def in_object_Nil in_object_Cons delete_prop_Nil delete_prop_Cons)

lemma obj_get_resolved_entries:
  "obj_get (resolved_entries p names) k = (if k \<in> set names then Some (JStr (version_of p k)) else None)"
  by (induction names) (auto split: option.splits)

lemma resolved_entries_append:
  "resolved_entries p (xs @ ys) = resolved_entries p xs @ resolved_entries p ys"
  by (simp add: resolved_entries_def)

lemma obj_keys_baseline_scripts: "obj_keys baseline_scripts = baseline_script_names"
  by (simp add: baseline_scripts_def baseline_scripts_table_def strs_def baseline_script_names_def)

lemma obj_keys_docs_scripts: "obj_keys docs_scripts = [''docs'', ''docs:api'', ''docs:toc'']"
  by (simp add: docs_scripts_def docs_scripts_table_def strs_def)

lemma obj_keys_css_scripts: "obj_keys (css_scripts ctx) = [''build:css'', ''watch:css'']"
  by (simp add: css_scripts_def css_scripts_table_def strs_def)

lemma css_scripts_docs [simp]: "css_scripts (ctx\<lparr>docs := b\<rparr>) = css_scripts ctx"
  by (simp add: css_scripts_def css_scripts_table_def scriptify_def)

lemma hooks_not_baseline [simp]:
  "''precommit'' \<notin> set baseline_script_names" "''prepush'' \<notin> set baseline_script_names"
  by (simp_all add: baseline_script_names_def)

lemma merged_scripts_lookup:
  "obj_get (merged_scripts current ctx) k =
     (if k \<in> set (removed_scripts ctx) then None
      else if k \<in> set (obj_keys (produced_scripts ctx)) then obj_get (produced_scripts ctx) k
      else obj_get (source_props (field current ''scripts'')) k)"
proof -
  consider "k = ''precommit''" | "k = ''prepush''" | "k \<noteq> ''precommit''" "k \<noteq> ''prepush''"
    by blast
  then show ?thesis
  proof cases
    case 1
    then show ?thesis
      by (simp add: merged_scripts_def produced_scripts_def removed_scripts_def Let_def
          obj_get_append_if obj_keys_baseline_scripts obj_keys_docs_scripts obj_keys_css_scripts)
  next
    case 2
    then show ?thesis
      by (simp add: merged_scripts_def produced_scripts_def removed_scripts_def Let_def
          obj_get_append_if obj_keys_baseline_scripts obj_keys_docs_scripts obj_keys_css_scripts)
  next
    case 3
    then show ?thesis
      by (simp add: merged_scripts_def produced_scripts_def removed_scripts_def Let_def
          obj_get_append_if obj_keys_baseline_scripts obj_keys_docs_scripts obj_keys_css_scripts)
  qed
qed

lemma merged_devDependencies_lookup:
  "obj_get (merged_devDependencies p current ctx) k =
     (if k \<in> set (removed_devDependencies ctx) then None
      else if k \<in> set (obj_keys (produced_devDependencies p ctx))
      then obj_get (produced_devDependencies p ctx) k
      else obj_get (source_props (field current ''devDependencies'')) k)"
proof -
  have b: "''husky'' \<in> set baseline_devDependencies" "''lint-staged'' \<in> set baseline_devDependencies"
    by (simp_all add: baseline_devDependencies_def)
  consider "k = ''husky''" | "k = ''lint-staged''" | "k \<noteq> ''husky''" "k \<noteq> ''lint-staged''"
    by blast
  then show ?thesis
  proof cases
    case 1
    then show ?thesis
      using b by (simp add: merged_devDependencies_def produced_devDependencies_def
          removed_devDependencies_def Let_def obj_get_append_if obj_get_resolved_entries)
  next
    case 2
    then show ?thesis
      using b by (simp add: merged_devDependencies_def produced_devDependencies_def
          removed_devDependencies_def Let_def obj_get_append_if obj_get_resolved_entries)
  next
    case 3
    then show ?thesis
      by (simp add: merged_devDependencies_def produced_devDependencies_def
          removed_devDependencies_def Let_def obj_get_append_if obj_get_resolved_entries
         )
  qed
qed

lemma merged_dependencies_lookup:
  "obj_get (merged_dependencies p current) k =
     (if k \<in> set (obj_keys (produced_dependencies p)) then obj_get (produced_dependencies p) k
      else obj_get (source_props (field current ''dependencies'')) k)"
  by (simp add: merged_dependencies_def produced_dependencies_def)

lemma distinct_merged_scripts [simp]: "distinct (obj_keys (merged_scripts current ctx))"
  by (simp add: merged_scripts_def Let_def)

lemma distinct_merged_devDependencies [simp]:
  "distinct (obj_keys (merged_devDependencies p current ctx))"
  by (simp add: merged_devDependencies_def Let_def)

lemma distinct_merged_dependencies [simp]: "distinct (obj_keys (merged_dependencies p current))"
  by (simp add: merged_dependencies_def)

lemma packageJSON_InrD:
  "packageJSON e current ctx = Inr r \<Longrightarrow> r = build e (current_or_empty current) ctx"
  by (auto simp: packageJSON_eq split: option.splits)

lemma scripts_of_build:
  "object_at (build e current ctx) ''scripts'' = alphabetizeScripts (merged_scripts current ctx)"
  by (simp add: object_at_def build_scripts)

lemma devDependencies_of_build:
  "object_at (build e current ctx) ''devDependencies''
     = alphabetizeObject (merged_devDependencies (pkg e) current ctx)"
  by (simp add: object_at_def build_devDependencies)

lemma dependencies_of_build:
  "object_at (build e current ctx) ''dependencies''
     = alphabetizeObject (merged_dependencies (pkg e) current)"
  by (simp add: object_at_def build_dependencies)

lemma build_lint_staged_off:
  "\<not> precommit ctx \<Longrightarrow> obj_get (build e current ctx) ''lint-staged'' = None"
  by (simp add: build_def normalize_def Let_def feature_lang_def feature_css_def
      feature_docs_def strip_husky_def strip_prepush_def strip_precommit_def)

lemma example_run:
  "packageJSON example_env (Some example_current) example_context
     = Inr (build example_env example_current example_context)"
  by code_simp

lemma set_uniq [simp]: "set (uniq xs) = set xs"
  by (induction xs rule: uniq.induct) auto

lemma distinct_uniq [simp]: "distinct (uniq xs)"
  by (induction xs rule: uniq.induct) auto

lemma sort_union_idem:
  "sort (union base (sort (union base kw))) = sort (union base (kw :: string list))"
proof -
  have "set (sort (union base (sort (union base kw)))) = set (sort (union base kw))"
    by (auto simp: union_def)
  moreover have "distinct (sort (union base (sort (union base kw))))" "distinct (sort (union base kw))"
    by (simp_all add: union_def)
  ultimately show ?thesis
    using sorted_distinct_set_unique[of "sort (union base (sort (union base kw)))" "sort (union base kw)"]
    by simp
qed

text \<open>
  An object built by assignments lists its keys in enumeration order: listing them
  again changes nothing.
\<close>

lemma enumerated_set_prop:
  "key_order (obj_keys t) = obj_keys t \<Longrightarrow>
   key_order (obj_keys (set_prop k v t)) = obj_keys (set_prop k v t)"
  by (simp add: obj_keys_set_prop)

lemma enumerated_assign:
  "key_order (obj_keys t) = obj_keys t \<Longrightarrow> key_order (obj_keys (assign t s)) = obj_keys (assign t s)"
  by (induction s rule: rev_induct) (simp_all add: assign_snoc enumerated_set_prop)

lemma enumerated_pick [simp]: "key_order (obj_keys (pick s ps)) = obj_keys (pick s ps)"
proof (induction ps rule: rev_induct)
  case Nil
  show ?case by (simp add: key_order_def)
next
  case (snoc k ps)
  show ?case
    using snoc enumerated_set_prop[OF snoc] by (simp add: pick_snoc split: option.splits)
qed

lemma enumerated_delete_prop:
  "key_order (obj_keys t) = obj_keys t \<Longrightarrow>
   key_order (obj_keys (delete_prop k t)) = obj_keys (delete_prop k t)"
  by (simp add: obj_keys_delete_prop filter_key_order[symmetric])

lemma obj_keys_assign:
  "distinct (obj_keys g) \<Longrightarrow> key_order (obj_keys t) = obj_keys t \<Longrightarrow>
   obj_keys (assign t g) = key_order (obj_keys t @ filter (\<lambda>k. k \<notin> set (obj_keys t)) (obj_keys g))"
proof (induction g arbitrary: t)
  case Nil
  then show ?case by simp
next
  case (Cons p g)
  from Cons.prems have ng: "fst p \<notin> set (obj_keys g)" and dg: "distinct (obj_keys g)"
    and et: "key_order (obj_keys t) = obj_keys t"
    by simp_all
  let ?t = "set_prop (fst p) (snd p) t"
  have IH: "obj_keys (assign ?t g) =
      key_order (obj_keys ?t @ filter (\<lambda>k. k \<notin> set (obj_keys ?t)) (obj_keys g))"
    by (rule Cons.IH[OF dg enumerated_set_prop[OF et]])
  show ?case
  proof (cases "fst p \<in> set (obj_keys t)")
    case True
    then have "obj_keys ?t = obj_keys t" by (simp add: obj_keys_set_prop)
    then show ?thesis using True IH by (simp add: assign_Cons)
  next
    case False
    have f: "filter (\<lambda>k. k \<noteq> fst p \<and> k \<notin> set (obj_keys t)) (obj_keys g)
        = filter (\<lambda>k. k \<notin> set (obj_keys t)) (obj_keys g)"
      using ng by (intro filter_cong) auto
    have k: "obj_keys ?t = key_order (obj_keys t @ [fst p])"
      using False by (simp add: obj_keys_set_prop)
    have "obj_keys (assign ?t g) =
        key_order (key_order (obj_keys t @ [fst p]) @ filter (\<lambda>k. k \<notin> set (obj_keys t)) (obj_keys g))"
      using IH f by (simp add: k)
    also have "\<dots> = key_order ((obj_keys t @ [fst p]) @ filter (\<lambda>k. k \<notin> set (obj_keys t)) (obj_keys g))"
      by (rule key_order_append_left)
    finally show ?thesis using False by (simp add: assign_Cons)
  qed
qed

lemma assign_Nil_distinct:
  "distinct (obj_keys ob) \<Longrightarrow> key_order (obj_keys ob) = obj_keys ob \<Longrightarrow> assign [] ob = ob"
proof (rule obj_ext)
  assume d: "distinct (obj_keys ob)" and e: "key_order (obj_keys ob) = obj_keys ob"
  have "key_order (obj_keys ([] :: (string \<times> 'a) list)) = obj_keys ([] :: (string \<times> 'a) list)"
    by (simp add: key_order_def)
  then have "obj_keys (assign [] ob) = key_order (obj_keys ob)"
    using obj_keys_assign[OF d, of "[]"] by simp
  then show "obj_keys (assign [] ob) = obj_keys ob" using e by simp
  show "distinct (obj_keys (assign [] ob))" by simp
  show "obj_get (assign [] ob) k = obj_get ob k" for k by simp
qed

lemma obj_keys_assign_within:
  "set (obj_keys g) \<subseteq> set (obj_keys t) \<Longrightarrow> obj_keys (assign t g) = obj_keys t"
proof (induction g arbitrary: t)
  case Nil
  show ?case by simp
next
  case (Cons p g)
  then show ?case by (simp add: assign_Cons obj_keys_set_prop)
qed

lemma delete_prop_absent: "k \<notin> set (obj_keys ob) \<Longrightarrow> delete_prop k ob = ob"
  by (induction ob) (auto simp: delete_prop_def)

lemma obj_keys_set_prop_within:
  "k \<in> set (obj_keys ob) \<Longrightarrow> obj_keys (set_prop k v ob) = obj_keys ob"
  by (simp add: obj_keys_set_prop)

text \<open>Keys of the output at the top level.\<close>

lemma generated_keys_mem:
  "''scripts'' \<in> set generated_keys" "''dependencies'' \<in> set generated_keys"
  "''devDependencies'' \<in> set generated_keys" "''lint-staged'' \<in> set generated_keys"
  by (simp_all add: generated_keys_def)

lemma enumerated_own: "key_order (obj_keys (assign [] s)) = obj_keys (assign [] s)"
  by (rule enumerated_assign) (simp add: key_order_def)

lemma obj_keys_compose:
  "obj_keys (compose e d current ctx) =
     key_order (obj_keys (assign [] (own_props current))
       @ filter (\<lambda>k. k \<notin> set (obj_keys (own_props current))) generated_keys)"
  using obj_keys_assign[OF _ enumerated_own, of "generated_fields e d current ctx" "own_props current"]
  by (simp add: compose_def distinct_generated_keys)

lemma enumerated_compose:
  "key_order (obj_keys (compose e d current ctx)) = obj_keys (compose e d current ctx)"
  by (simp add: obj_keys_compose)

lemma obj_keys_build:
  "obj_keys (build e current ctx) =
     (if precommit ctx then obj_keys (compose e (resolved_defaults (pkg e)) current ctx)
      else filter (\<lambda>k. k \<noteq> ''lint-staged'')
             (obj_keys (compose e (resolved_defaults (pkg e)) current ctx)))"
proof -
  have mem: "''scripts'' \<in> set (obj_keys (compose e d current ctx))"
    "''dependencies'' \<in> set (obj_keys (compose e d current ctx))"
    "''devDependencies'' \<in> set (obj_keys (compose e d current ctx))" for d
    by (simp_all add: compose_def generated_keys_mem)
  show ?thesis
    using mem[of "resolved_defaults (pkg e)"]
    by (simp add: build_def normalize_def Let_def obj_keys_set_prop feature_lang_def
        feature_css_def feature_docs_def strip_husky_def strip_prepush_def strip_precommit_def
        obj_keys_delete_prop)
qed

lemma distinct_compose [simp]: "distinct (obj_keys (compose e d current ctx))"
  by (simp add: compose_def)

lemma distinct_build [simp]: "distinct (obj_keys (build e current ctx))"
  by (simp add: obj_keys_build)

lemma enumerated_build: "key_order (obj_keys (build e current ctx)) = obj_keys (build e current ctx)"
  by (simp add: obj_keys_build enumerated_compose filter_key_order[symmetric])

lemma keys_rebuild:
  assumes ls: "l \<in> set G"
    and R: "set R = (if pc then set K0 \<union> set G else (set K0 \<union> set G) - {l})"
  shows "(if pc then R @ filter (\<lambda>k. k \<notin> set R) G
          else filter (\<lambda>k. k \<noteq> l) (R @ filter (\<lambda>k. k \<notin> set R) G)) = R"
proof (cases pc)
  case True
  then have "set G \<subseteq> set R" using R by auto
  then have "filter (\<lambda>k. k \<notin> set R) G = []" by (auto simp: filter_empty_conv)
  then show ?thesis using True by simp
next
  case False
  then have sR: "set R = (set K0 \<union> set G) - {l}" using R by auto
  have "filter (\<lambda>k. k \<notin> set R) G = filter (\<lambda>k. k = l) G"
    by (rule filter_cong) (auto simp: sR)
  moreover have "filter (\<lambda>k. k \<noteq> l) R = R"
    using sR by (auto simp: filter_id_conv)
  ultimately show ?thesis using False by simp
qed

lemma keys_eq_dom: "set (obj_keys ob) = {k. obj_get ob k \<noteq> None}"
  by (auto simp: obj_get_None_iff)

lemma removed_not_produced:
  "k \<in> set (removed_scripts ctx) \<Longrightarrow> k \<notin> set (obj_keys (produced_scripts ctx))"
  by (auto simp: removed_scripts_def produced_scripts_def obj_keys_baseline_scripts
      obj_keys_docs_scripts obj_keys_css_scripts baseline_script_names_def split: if_splits)

lemma keys_merged_scripts:
  "set (obj_keys (merged_scripts current ctx)) =
     (set (obj_keys (source_props (field current ''scripts'')))
      \<union> set (obj_keys (produced_scripts ctx))) - set (removed_scripts ctx)"
proof (rule set_eqI)
  fix k
  show "k \<in> set (obj_keys (merged_scripts current ctx)) \<longleftrightarrow>
        k \<in> (set (obj_keys (source_props (field current ''scripts'')))
      \<union> set (obj_keys (produced_scripts ctx))) - set (removed_scripts ctx)"
    using obj_get_None_iff[of "merged_scripts current ctx" k]
      obj_get_None_iff[of "produced_scripts ctx" k]
      obj_get_None_iff[of "source_props (field current ''scripts'')" k]
    by (simp add: merged_scripts_lookup split: if_splits)
qed

lemma obj_keys_delete_absent:
  "k \<notin> set (obj_keys ob) \<Longrightarrow> obj_keys (delete_prop k ob) = obj_keys ob"
  by (simp add: delete_prop_absent)

lemma merged_scripts_fixed:
  assumes d: "distinct (obj_keys t)" and en: "key_order (obj_keys t) = obj_keys t"
    and p: "set (obj_keys (produced_scripts ctx)) \<subseteq> set (obj_keys t)"
    and r: "set (removed_scripts ctx) \<inter> set (obj_keys t) = {}"
    and f: "field current ''scripts'' = Some (JObj t)"
  shows "obj_keys (merged_scripts current ctx) = obj_keys t"
proof -
  let ?s0 = "assign t baseline_scripts"
  let ?s1 = "if \<not> precommit ctx then delete_prop ''precommit'' ?s0 else ?s0"
  let ?s2 = "if \<not> prepush ctx then delete_prop ''prepush'' ?s1 else ?s1"
  let ?s3 = "if docs ctx then assign ?s2 docs_scripts else ?s2"
  let ?s4 = "if css ctx then assign ?s3 (css_scripts ctx) else ?s3"
  let ?s5 = "if lang ctx then set_prop ''build:lang'' (JStr ''vjslang --dir dist/lang'') ?s4 else ?s4"
  have np: "''precommit'' \<notin> set (obj_keys t)" if "\<not> precommit ctx"
    using r that by (auto simp: removed_scripts_def)
  have nq: "''prepush'' \<notin> set (obj_keys t)" if "\<not> prepush ctx"
    using r that by (auto simp: removed_scripts_def)
  have k0: "obj_keys ?s0 = obj_keys t"
    using p by (intro obj_keys_assign_within) (simp add: produced_scripts_def)
  have k1: "obj_keys ?s1 = obj_keys t"
    using np k0 by (simp add: obj_keys_delete_absent)
  have k2: "obj_keys ?s2 = obj_keys t"
    using nq k1 by (simp add: obj_keys_delete_absent)
  have k3: "obj_keys ?s3 = obj_keys t"
  proof (cases "docs ctx")
    case True
    then have "set (obj_keys docs_scripts) \<subseteq> set (obj_keys ?s2)"
      using p k2 by (simp add: produced_scripts_def)
    then show ?thesis using True k2 by (simp add: obj_keys_assign_within)
  next
    case False
    then show ?thesis using k2 by simp
  qed
  have k4: "obj_keys ?s4 = obj_keys t"
  proof (cases "css ctx")
    case True
    then have "set (obj_keys (css_scripts ctx)) \<subseteq> set (obj_keys ?s3)"
      using p k3 by (simp add: produced_scripts_def)
    then show ?thesis using True k3 by (simp add: obj_keys_assign_within)
  next
    case False
    then show ?thesis using k3 by simp
  qed
  have k5: "obj_keys ?s5 = obj_keys t"
  proof (cases "lang ctx")
    case True
    then have "''build:lang'' \<in> set (obj_keys ?s4)"
      using p k4 by (simp add: produced_scripts_def)
    then show ?thesis using True k4 by (simp add: obj_keys_set_prop_within)
  next
    case False
    then show ?thesis using k4 by simp
  qed
  have "merged_scripts current ctx = ?s5"
    by (simp add: merged_scripts_def Let_def f source_props_def assign_Nil_distinct[OF d en])
  then show ?thesis using k5 by simp
qed

lemma alphabetizeScripts_again:
  assumes f: "field current' ''scripts'' = Some (JObj (alphabetizeScripts (merged_scripts current ctx)))"
    and u: "unnested (obj_keys (merged_scripts current ctx))"
  shows "alphabetizeScripts (merged_scripts current' ctx)
           = alphabetizeScripts (merged_scripts current ctx)"
proof -
  let ?M1 = "merged_scripts current ctx" and ?M2 = "merged_scripts current' ctx"
  let ?A1 = "alphabetizeScripts ?M1"
  have kA: "obj_keys ?A1 = key_order (scriptOrder (obj_keys ?M1))"
    by (simp add: obj_keys_alphabetizeScripts)
  have sA: "set (obj_keys ?A1) = set (obj_keys ?M1)"
    by (simp add: kA)
  have look: "obj_get ?M2 k = obj_get ?M1 k" for k
    by (simp add: merged_scripts_lookup[of current'] f source_props_def)
       (simp add: merged_scripts_lookup[of current])
  have keys: "obj_keys ?M2 = obj_keys ?A1"
  proof (rule merged_scripts_fixed[OF _ _ _ _ f])
    show "distinct (obj_keys ?A1)" by simp
    show "key_order (obj_keys ?A1) = obj_keys ?A1" by (simp add: kA)
    show "set (obj_keys (produced_scripts ctx)) \<subseteq> set (obj_keys ?A1)"
      unfolding sA keys_merged_scripts using removed_not_produced by auto
    show "set (removed_scripts ctx) \<inter> set (obj_keys ?A1) = {}"
      unfolding sA keys_merged_scripts by auto
  qed
  have "scriptOrder (obj_keys ?M2) = scriptOrder (obj_keys ?M1)"
    unfolding keys kA by (rule scriptOrder_enumerated) (simp_all add: u)
  moreover have "pick ?M2 (scriptOrder (obj_keys ?M1)) = pick ?M1 (scriptOrder (obj_keys ?M1))"
    by (rule pick_cong) (rule look)
  ultimately show ?thesis
    by (simp add: alphabetizeScripts_def)
qed

lemma alphabetize_devDependencies_again:
  assumes f: "field current' ''devDependencies''
      = Some (JObj (alphabetizeObject (merged_devDependencies p current ctx)))"
  shows "alphabetizeObject (merged_devDependencies p current' ctx)
           = alphabetizeObject (merged_devDependencies p current ctx)"
proof (rule alphabetizeObject_cong)
  show "obj_get (merged_devDependencies p current' ctx) k
      = obj_get (merged_devDependencies p current ctx) k" for k
    by (simp add: merged_devDependencies_lookup[of p current'] f source_props_def)
       (simp add: merged_devDependencies_lookup[of p current])
qed simp_all

lemma alphabetize_dependencies_again:
  assumes f: "field current' ''dependencies''
      = Some (JObj (alphabetizeObject (merged_dependencies p current)))"
  shows "alphabetizeObject (merged_dependencies p current')
           = alphabetizeObject (merged_dependencies p current)"
proof (rule alphabetizeObject_cong)
  show "obj_get (merged_dependencies p current') k = obj_get (merged_dependencies p current) k" for k
    by (simp add: merged_dependencies_lookup[of p current'] f source_props_def)
       (simp add: merged_dependencies_lookup[of p current])
qed simp_all

lemma compose_lookup:
  "obj_get (compose e d current ctx) k =
     (if k \<in> set generated_keys then obj_get (generated_fields e d current ctx) k
      else obj_get (own_props current) k)"
  by (simp add: compose_def)

lemma obj_get_agree:
  "list_all2 (\<lambda>p q. fst p = fst q \<and> (fst p = k \<longrightarrow> snd p = snd q)) xs ys \<Longrightarrow>
   obj_get xs k = obj_get ys k"
  by (induction xs ys rule: list_all2_induct) auto

lemma generated_static:
  assumes "k \<noteq> ''scripts''" "k \<noteq> ''dependencies''" "k \<noteq> ''devDependencies''" "k \<noteq> ''keywords''"
  shows "obj_get (generated_fields e d current ctx) k = obj_get (generated_fields e d current' ctx) k"
proof (rule obj_get_agree)
  show "list_all2 (\<lambda>p q. fst p = fst q \<and> (fst p = k \<longrightarrow> snd p = snd q))
      (generated_fields e d current ctx) (generated_fields e d current' ctx)"
    unfolding generated_fields_def using assms by (simp del: obj_get.simps)
qed

lemma generated_keywords:
  "obj_get (generated_fields e d current ctx) ''keywords'' =
     Some (JArr (sort (union [''videojs'', ''videojs-plugin''] (array_arg (field current ''keywords'')))))"
  by (simp add: generated_fields_def)

lemma build_outer:
  assumes "k \<noteq> ''scripts''" "k \<noteq> ''dependencies''" "k \<noteq> ''devDependencies''" "k \<noteq> ''husky''"
  shows "obj_get (build e current ctx) k =
     (if k = ''lint-staged'' \<and> \<not> precommit ctx then None
      else if k = ''files''
      then map_option (on_array sort) (obj_get (compose e (resolved_defaults (pkg e)) current ctx) k)
      else obj_get (compose e (resolved_defaults (pkg e)) current ctx) k)"
  using assms
  by (simp add: build_def normalize_def Let_def feature_lang_def feature_css_def
      feature_docs_def strip_husky_def strip_prepush_def strip_precommit_def)

lemma build_keywords:
  "obj_get (build e current ctx) ''keywords'' =
     Some (JArr (sort (union [''videojs'', ''videojs-plugin''] (array_arg (field current ''keywords'')))))"
  by (simp add: build_outer compose_lookup generated_keywords generated_keys_def)

lemma build_idem:
  assumes u: "unnested (obj_keys (merged_scripts current ctx))"
  shows "build e (JObj (build e current ctx)) ctx = build e current ctx"
proof (rule obj_ext)
  let ?r = "build e current ctx"
  let ?d = "resolved_defaults (pkg e)"
  show "distinct (obj_keys (build e (JObj ?r) ctx))" by simp
  show "obj_keys (build e (JObj ?r) ctx) = obj_keys ?r"
  proof -
    let ?K0 = "obj_keys (assign [] (own_props current))"
    have R: "set (obj_keys ?r) =
        (if precommit ctx then set ?K0 \<union> set generated_keys
         else (set ?K0 \<union> set generated_keys) - {''lint-staged''})"
      by (auto simp: obj_keys_build obj_keys_compose)
    have "obj_keys (build e (JObj ?r) ctx) =
        key_order
         (if precommit ctx then obj_keys ?r @ filter (\<lambda>k. k \<notin> set (obj_keys ?r)) generated_keys
          else filter (\<lambda>k. k \<noteq> ''lint-staged'')
                (obj_keys ?r @ filter (\<lambda>k. k \<notin> set (obj_keys ?r)) generated_keys))"
      by (simp add: obj_keys_build[of e "JObj ?r"] obj_keys_compose
          assign_Nil_distinct[OF distinct_build enumerated_build] filter_key_order)
    also have "\<dots> = key_order (obj_keys ?r)"
      by (simp only: keys_rebuild[OF generated_keys_mem(4) R])
    also have "\<dots> = obj_keys ?r"
      by (rule enumerated_build)
    finally show ?thesis .
  qed
  show "obj_get (build e (JObj ?r) ctx) k = obj_get ?r k" for k
  proof -
    consider (scripts) "k = ''scripts''" | (deps) "k = ''dependencies''"
      | (devs) "k = ''devDependencies''" | (husky) "k = ''husky''" | (kwds) "k = ''keywords''"
      | (other) "k \<noteq> ''scripts''" "k \<noteq> ''dependencies''" "k \<noteq> ''devDependencies''"
          "k \<noteq> ''husky''" "k \<noteq> ''keywords''"
      by blast
    then show ?thesis
    proof cases
      case scripts
      have "field (JObj ?r) ''scripts'' = Some (JObj (alphabetizeScripts (merged_scripts current ctx)))"
        by (simp add: build_scripts)
      then show ?thesis
        using alphabetizeScripts_again[OF _ u] by (simp add: scripts build_scripts)
    next
      case deps
      have "field (JObj ?r) ''dependencies''
          = Some (JObj (alphabetizeObject (merged_dependencies (pkg e) current)))"
        by (simp add: build_dependencies)
      then show ?thesis
        using alphabetize_dependencies_again by (simp add: deps build_dependencies)
    next
      case devs
      have "field (JObj ?r) ''devDependencies''
          = Some (JObj (alphabetizeObject (merged_devDependencies (pkg e) current ctx)))"
        by (simp add: build_devDependencies)
      then show ?thesis
        using alphabetize_devDependencies_again by (simp add: devs build_devDependencies)
    next
      case husky
      then show ?thesis by (simp add: build_husky)
    next
      case kwds
      have "field (JObj ?r) ''keywords''
          = Some (JArr (sort (union [''videojs'', ''videojs-plugin'']
                (array_arg (field current ''keywords'')))))"
        by (simp add: build_keywords)
      then show ?thesis
        by (simp add: kwds build_keywords array_arg_def sort_union_idem)
    next
      case other
      note o = build_outer[OF other(1-4)]
      have g: "obj_get (generated_fields e ?d (JObj ?r) ctx) k =
          obj_get (generated_fields e ?d current ctx) k"
        using other by (intro generated_static) simp_all
      have gf: "obj_get (generated_fields e ?d (JObj ?r) ctx) ''files'' =
          obj_get (generated_fields e ?d current ctx) ''files''"
        by (intro generated_static) simp_all
      have fm: "''files'' \<in> set generated_keys"
        by (simp add: generated_keys_def)
      show ?thesis
      proof (cases "k \<in> set generated_keys")
        case True
        then show ?thesis
          by (simp add: o[of e "JObj ?r"] o[of e current] compose_lookup g gf fm)
      next
        case False
        then have nl: "k \<noteq> ''lint-staged''" "k \<noteq> ''files''"
          by (auto simp: generated_keys_def)
        have "obj_get ?r k = obj_get (own_props current) k"
          using False nl by (simp add: o[of e current] compose_lookup)
        then show ?thesis
          using False nl by (simp add: o[of e "JObj ?r"] compose_lookup)
      qed
    qed
  qed
qed

lemma length_overlay:
  assumes dt: "distinct (obj_keys t)" and df: "distinct (obj_keys f)" and dn: "distinct names"
    and look: "\<And>k. obj_get t k = (if k \<in> set names then Some (g k) else obj_get f k)"
    and new: "\<And>k. k \<in> set names \<Longrightarrow> obj_get f k = None"
  shows "length t = length f + length names"
proof -
  have "set (obj_keys t) = set (obj_keys f) \<union> set names"
    unfolding keys_eq_dom using look by auto
  moreover have "set (obj_keys f) \<inter> set names = {}"
    unfolding keys_eq_dom using new by auto
  ultimately have "card (set (obj_keys t)) = card (set (obj_keys f)) + card (set names)"
    by (simp add: card_Un_disjoint)
  then have "length (obj_keys t) = length (obj_keys f) + length names"
    using dt df dn by (simp add: distinct_card)
  then show ?thesis by (simp add: obj_keys_def)
qed

lemma not_in_registry: "\<not> in_registry p n \<Longrightarrow> \<not> resolves p n"
  by (simp add: in_registry_def resolves_def getGeneratorVersion_def Let_def truthy_version_def)

section \<open>Claims\<close>

text \<open>
  C1 as stated fails. A script \<open>prepretest\<close> next to the baseline's \<open>pretest\<close> and \<open>test\<close> is
  first in the key order of the merged scripts, so the ordering loop meets it before
  \<open>pretest\<close> has been put into the order and appends it at the end. In the output it comes
  after \<open>pretest\<close>; run on that output, the loop finds \<open>pretest\<close> in the order and puts
  \<open>prepretest\<close> in front of it. The second output differs from the first in the order of the
  scripts.
\<close>

theorem C1_second_run_reorders:
  "(case packageJSON example_env (Some nested_current) example_context of
      Inr r \<Rightarrow>
        (case packageJSON example_env (Some (JObj r)) example_context of
           Inr r' \<Rightarrow> r' \<noteq> r
                    \<and> obj_keys (object_at r' ''scripts'') \<noteq> obj_keys (object_at r ''scripts'')
         | Inl err \<Rightarrow> False)
    | Inl err \<Rightarrow> False)"
  by code_simp

text \<open>
  C1, amended. For every current document and context for which the merge succeeds, if no
  script name of the output that begins with \<open>pre\<close> or \<open>post\<close> is, without that prefix, again
  a script name of the output that begins with \<open>pre\<close> or \<open>post\<close>, then running the merge on
  its own output gives that output again: the same fields, values and key order.
\<close>

theorem C1_idempotent:
  assumes run: "packageJSON e current ctx = Inr r"
    and u: "unnested (obj_keys (object_at r ''scripts''))"
  shows "packageJSON e (Some (JObj r)) ctx = Inr r"
proof -
  let ?cur = "current_or_empty current"
  have r: "r = build e ?cur ctx"
    using run by (rule packageJSON_InrD)
  have ok: "find (\<lambda>n. \<not> resolves (pkg e) n) (requested ctx) = None"
    using run by (auto simp: packageJSON_eq split: option.splits)
  have "set (obj_keys (object_at r ''scripts'')) = set (obj_keys (merged_scripts ?cur ctx))"
    by (simp add: r scripts_of_build obj_keys_alphabetizeScripts)
  then have "unnested (obj_keys (merged_scripts ?cur ctx))"
    using u unnested_cong by blast
  then have "build e (JObj r) ctx = r"
    unfolding r by (rule build_idem)
  then show ?thesis
    by (simp add: packageJSON_eq ok current_or_empty_def)
qed

theorem C1_idempotent_witness:
  "(case packageJSON example_env (Some example_current) example_context of
      Inr r \<Rightarrow> unnested (obj_keys (object_at r ''scripts''))
              \<and> packageJSON example_env (Some (JObj r)) example_context = Inr r
    | Inl err \<Rightarrow> False)"
proof -
  have u: "unnested (obj_keys (object_at (build example_env example_current example_context)
             ''scripts''))"
    by code_simp
  show ?thesis
    using C1_idempotent[OF example_run u] u by (simp add: example_run)
qed

text \<open>
  C2 as stated fails: with \<open>docs\<close> off no stage touches the keys \<open>docs\<close>, \<open>docs:api\<close> and
  \<open>docs:toc\<close>, so a \<open>docs\<close> script of the current document is still there in the output.
\<close>

theorem C2_docs_script_survives:
  "\<not> docs example_context
   \<and> (case packageJSON example_env (Some example_current) example_context of
         Inr r \<Rightarrow> obj_get (object_at r ''scripts'') ''docs'' = Some (JStr ''echo docs'')
       | Inl err \<Rightarrow> False)"
  by code_simp

text \<open>
  C2, amended. For every current document and every context with \<open>docs\<close> off, where the
  merge succeeds: the output scripts hold \<open>docs\<close>, \<open>docs:api\<close> or \<open>docs:toc\<close> exactly when the
  scripts of the current document hold that key, and then with the current value. So the
  three keys are absent from the output whenever the current document does not have them.
\<close>

theorem C2_docs_scripts_only_from_current:
  assumes "packageJSON e current ctx = Inr r" and "\<not> docs ctx"
    and "k = ''docs'' \<or> k = ''docs:api'' \<or> k = ''docs:toc''"
  shows "obj_get (object_at r ''scripts'') k
           = obj_get (source_props (field (current_or_empty current) ''scripts'')) k"
proof -
  have r: "r = build e (current_or_empty current) ctx"
    using assms(1) by (rule packageJSON_InrD)
  have "k \<notin> set (removed_scripts ctx)"
    using assms(3) by (auto simp: removed_scripts_def)
  moreover have "k \<notin> set (obj_keys (produced_scripts ctx))"
    using assms(2,3)
    by (auto simp: produced_scripts_def obj_keys_baseline_scripts obj_keys_css_scripts
        baseline_script_names_def)
  ultimately show ?thesis
    by (simp add: r scripts_of_build merged_scripts_lookup)
qed

theorem C2_docs_scripts_only_from_current_witness:
  "\<not> docs example_context
   \<and> (case packageJSON example_env (Some example_current) example_context of
         Inr r \<Rightarrow> obj_get (object_at r ''scripts'') ''docs:api'' = None
                 \<and> obj_get (object_at r ''scripts'') ''docs:toc'' = None
       | Inl err \<Rightarrow> False)"
proof -
  have nd: "\<not> docs example_context"
    by (simp add: example_context_def)
  have cur: "obj_get (source_props (field (current_or_empty (Some example_current)) ''scripts''))
               ''docs:api'' = None"
    "obj_get (source_props (field (current_or_empty (Some example_current)) ''scripts''))
               ''docs:toc'' = None"
    by (simp_all add: example_current_def source_props_def current_or_empty_def)
  show ?thesis
    using C2_docs_scripts_only_from_current[OF example_run nd, of "''docs:api''"]
      C2_docs_scripts_only_from_current[OF example_run nd, of "''docs:toc''"] nd cur
    by (simp add: example_run)
qed

text \<open>
  C3 as stated fails: the merge deletes no script by the name \<open>husky\<close> or \<open>lint-staged\<close>, so
  a script of that name in the current document is still among the output scripts when
  both hooks are off.
\<close>

theorem C3_husky_script_survives:
  "\<not> precommit example_context \<and> \<not> prepush example_context
   \<and> ''husky'' \<in> set (obj_keys (source_props (field example_current ''devDependencies'')))
   \<and> (case packageJSON example_env (Some example_current) example_context of
         Inr r \<Rightarrow> ''husky'' \<in> set (obj_keys (object_at r ''scripts''))
       | Inl err \<Rightarrow> False)"
  by code_simp

text \<open>
  C3, amended. For every current document whose \<open>devDependencies\<close> hold \<open>husky\<close>, and every
  context with \<open>precommit\<close> and \<open>prepush\<close> off, where the merge succeeds: the output
  \<open>devDependencies\<close> have neither \<open>husky\<close> nor \<open>lint-staged\<close>, the output has no top-level
  \<open>lint-staged\<close> field, the hooks block has no entry, and the output scripts hold \<open>husky\<close> or
  \<open>lint-staged\<close> only as the scripts of the current document do.
\<close>

theorem C3_hooks_off:
  assumes "packageJSON e current ctx = Inr r" and "\<not> precommit ctx" and "\<not> prepush ctx"
    and "''husky'' \<in> set (obj_keys
           (source_props (field (current_or_empty current) ''devDependencies'')))"
  shows "''husky'' \<notin> set (obj_keys (object_at r ''devDependencies''))
       \<and> ''lint-staged'' \<notin> set (obj_keys (object_at r ''devDependencies''))
       \<and> ''lint-staged'' \<notin> set (obj_keys r)
       \<and> object_at (object_at r ''husky'') ''hooks'' = []
       \<and> obj_get (object_at r ''scripts'') ''husky''
           = obj_get (source_props (field (current_or_empty current) ''scripts'')) ''husky''
       \<and> obj_get (object_at r ''scripts'') ''lint-staged''
           = obj_get (source_props (field (current_or_empty current) ''scripts'')) ''lint-staged''"
proof -
  have r: "r = build e (current_or_empty current) ctx"
    using assms(1) by (rule packageJSON_InrD)
  have dev: "obj_get (object_at r ''devDependencies'') ''husky'' = None"
    "obj_get (object_at r ''devDependencies'') ''lint-staged'' = None"
    using assms(2,3)
    by (simp_all add: r devDependencies_of_build merged_devDependencies_lookup
        removed_devDependencies_def)
  have top: "obj_get r ''lint-staged'' = None"
    using assms(2) unfolding r by (rule build_lint_staged_off)
  have hooks: "object_at (object_at r ''husky'') ''hooks'' = []"
    using assms(2,3) by (simp add: r object_at_def build_husky merged_hooks_def delete_prop_def)
  have "''husky'' \<notin> set (removed_scripts ctx)" "''lint-staged'' \<notin> set (removed_scripts ctx)"
    by (auto simp: removed_scripts_def)
  moreover have "''husky'' \<notin> set (obj_keys (produced_scripts ctx))"
    "''lint-staged'' \<notin> set (obj_keys (produced_scripts ctx))"
    by (auto simp: produced_scripts_def obj_keys_baseline_scripts obj_keys_css_scripts
        obj_keys_docs_scripts baseline_script_names_def)
  ultimately have scr: "obj_get (object_at r ''scripts'') ''husky''
           = obj_get (source_props (field (current_or_empty current) ''scripts'')) ''husky''"
    "obj_get (object_at r ''scripts'') ''lint-staged''
           = obj_get (source_props (field (current_or_empty current) ''scripts'')) ''lint-staged''"
    by (simp_all add: r scripts_of_build merged_scripts_lookup)
  show ?thesis
    using dev top hooks scr by (simp add: obj_get_None_iff)
qed

theorem C3_hooks_off_witness:
  "\<not> precommit example_context \<and> \<not> prepush example_context
   \<and> ''husky'' \<in> set (obj_keys (source_props (field example_current ''devDependencies'')))
   \<and> ''lint-staged'' \<in> set (obj_keys (own_props example_current))
   \<and> (case packageJSON example_env (Some example_current) example_context of
         Inr r \<Rightarrow> ''husky'' \<notin> set (obj_keys (object_at r ''devDependencies''))
                 \<and> ''lint-staged'' \<notin> set (obj_keys (object_at r ''devDependencies''))
                 \<and> ''lint-staged'' \<notin> set (obj_keys r)
                 \<and> object_at (object_at r ''husky'') ''hooks'' = []
                 \<and> obj_get (object_at r ''scripts'') ''lint-staged'' = None
       | Inl err \<Rightarrow> False)"
proof -
  have flags: "\<not> precommit example_context" "\<not> prepush example_context"
    by (simp_all add: example_context_def)
  have cur: "''husky'' \<in> set (obj_keys (source_props (field example_current ''devDependencies'')))"
    "''lint-staged'' \<in> set (obj_keys (own_props example_current))"
    "obj_get (source_props (field example_current ''scripts'')) ''lint-staged'' = None"
    "current_or_empty (Some example_current) = example_current"
    by (simp_all add: example_current_def source_props_def current_or_empty_def)
  have h: "''husky'' \<in> set (obj_keys
        (source_props (field (current_or_empty (Some example_current)) ''devDependencies'')))"
    using cur by simp
  show ?thesis
    using C3_hooks_off[OF example_run flags h] flags cur by (simp add: example_run)
qed

text \<open>
  C4 as stated fails in two ways. Where a lifecycle script has a lifecycle script of its
  own: in the map with the keys \<open>prefoo\<close>, \<open>postprefoo\<close>, \<open>foo\<close> the only name without a
  \<open>pre\<close>/\<open>post\<close> match to another name is \<open>foo\<close>, and \<open>prefoo\<close> is its \<open>pre\<close> script; but the
  loop puts \<open>postprefoo\<close> after \<open>prefoo\<close>, which it finds in the order, so \<open>prefoo\<close> is not
  immediately before \<open>foo\<close>. And where a name is an array index: the loop arranges the
  keys \<open>2\<close>, \<open>10\<close>, \<open>pre2\<close> as \<open>10\<close>, \<open>pre2\<close>, \<open>2\<close>, but the object picked in that
  arrangement lists its array indices first and in numeric order, so the output has \<open>2\<close>
  before \<open>10\<close>, against the lexical order, and \<open>pre2\<close> is not immediately before \<open>2\<close>.
\<close>

theorem C4_nested_lifecycle_script:
  "obj_keys (alphabetizeScripts
     [(''prefoo'', JStr ''a''), (''postprefoo'', JStr ''b''), (''foo'', JStr ''c'')])
     = [''prefoo'', ''postprefoo'', ''foo'']
   \<and> ''prefoo'' = ''pre'' @ ''foo''
   \<and> \<not> immediately_before ''prefoo'' ''foo''
        (obj_keys (alphabetizeScripts
           [(''prefoo'', JStr ''a''), (''postprefoo'', JStr ''b''), (''foo'', JStr ''c'')]))
   \<and> obj_keys (alphabetizeScripts
        [(''2'', JStr ''a''), (''10'', JStr ''b''), (''pre2'', JStr ''c'')])
        = [''2'', ''10'', ''pre2'']
   \<and> scriptOrder [''2'', ''10'', ''pre2''] = [''10'', ''pre2'', ''2'']
   \<and> ''10'' < ''2''
   \<and> ''pre2'' = ''pre'' @ ''2''
   \<and> \<not> immediately_before ''pre2'' ''2''
        (obj_keys (alphabetizeScripts
           [(''2'', JStr ''a''), (''10'', JStr ''b''), (''pre2'', JStr ''c'')]))"
  by code_simp

text \<open>
  C4, amended. Take a scripts map (its keys distinct) in which no name is an array index
  and no name that begins with \<open>pre\<close> or \<open>post\<close> is, without that prefix, again a name of
  the map that begins with \<open>pre\<close> or \<open>post\<close>. Normalization keeps every value and orders
  the keys as \<open>lifecycle_order\<close> says: the names that do not begin with \<open>pre\<close> or \<open>post\<close>
  come in ascending order, each with its \<open>pre\<close> script (if the map has it) immediately
  before and its \<open>post\<close> script (if the map has it) immediately after; the names that
  begin with \<open>pre\<close> or \<open>post\<close> and whose remainder is not a name of the map follow at the
  end, in the order of the input.
\<close>

theorem C4_lifecycle_order:
  assumes "distinct (obj_keys source)" and "unnested (obj_keys source)"
    and "\<forall>k \<in> set (obj_keys source). \<not> is_index k"
  shows "obj_keys (alphabetizeScripts source) = lifecycle_order (obj_keys source)
       \<and> obj_get (alphabetizeScripts source) k = obj_get source k"
proof -
  have "\<forall>k \<in> set (scriptOrder (obj_keys source)). \<not> is_index k"
    using assms(3) by simp
  then have "key_order (scriptOrder (obj_keys source)) = scriptOrder (obj_keys source)"
    by (rule key_order_plain)
  then show ?thesis
    using assms(1,2) by (simp add: obj_keys_alphabetizeScripts scriptOrder_lifecycle)
qed

theorem C4_lifecycle_order_witness:
  "distinct (obj_keys lifecycle_example) \<and> unnested (obj_keys lifecycle_example)
   \<and> list_all (\<lambda>k. \<not> is_index k) (obj_keys lifecycle_example)
   \<and> obj_keys (alphabetizeScripts lifecycle_example)
       = [''prebuild'', ''build'', ''pretest'', ''test'', ''posttest'', ''postinstall'',
          ''prepublishOnly'']
   \<and> obj_get (alphabetizeScripts lifecycle_example) ''pretest'' = Some (JStr ''f'')"
proof -
  have d: "distinct (obj_keys lifecycle_example)"
    by code_simp
  have u: "unnested (obj_keys lifecycle_example)"
    by code_simp
  have n: "list_all (\<lambda>k. \<not> is_index k) (obj_keys lifecycle_example)"
    by code_simp
  then have n': "\<forall>k \<in> set (obj_keys lifecycle_example). \<not> is_index k"
    by (simp add: list_all_iff)
  have l: "lifecycle_order (obj_keys lifecycle_example)
       = [''prebuild'', ''build'', ''pretest'', ''test'', ''posttest'', ''postinstall'',
          ''prepublishOnly'']"
    by code_simp
  have v: "obj_get lifecycle_example ''pretest'' = Some (JStr ''f'')"
    by code_simp
  show ?thesis
    using C4_lifecycle_order[OF d u n', of "''pretest''"] d u n l v by simp
qed

text \<open>
  C5. Normalizing the scripts map with the keys \<open>postinstall\<close>, \<open>build\<close>, \<open>prebuild\<close> gives
  the key order \<open>prebuild\<close>, \<open>build\<close>, \<open>postinstall\<close>: \<open>prebuild\<close> sits immediately before
  its core script \<open>build\<close>, and \<open>postinstall\<close>, whose core script \<open>install\<close> is absent, comes
  last. The values stay with their keys.
\<close>

theorem C5_prebuild_build_postinstall:
  "alphabetizeScripts [(''postinstall'', a), (''build'', b), (''prebuild'', c)]
     = [(''prebuild'', c), (''build'', b), (''postinstall'', a)]"
proof -
  have n: "\<not> is_index ''prebuild''" "\<not> is_index ''build''" "\<not> is_index ''postinstall''"
    by code_simp+
  show ?thesis
    by (simp add: alphabetizeScripts_def scriptOrder_def pick_def obj_keys_def isPrePost_def
        startsWith_def difference_def inject_def substr_def splice_in_def set_prop_def
        enumeration_def n)
qed

text \<open>
  C6 as stated fails where a hook is off. A \<open>precommit\<close> script of the current document is a
  key that no stage produces, and it is not in the output; \<open>husky\<close> is a key the baseline
  produces for \<open>devDependencies\<close>, and it is not in the output either.
\<close>

theorem C6_removed_keys_missing:
  "obj_get (source_props (field example_current ''scripts'')) ''precommit''
     = Some (JStr ''npm run lint'')
   \<and> ''precommit'' \<notin> set (obj_keys (produced_scripts example_context))
   \<and> ''husky'' \<in> set (obj_keys (produced_devDependencies (pkg example_env) example_context))
   \<and> (case packageJSON example_env (Some example_current) example_context of
         Inr r \<Rightarrow> obj_get (object_at r ''scripts'') ''precommit'' = None
                 \<and> obj_get (object_at r ''devDependencies'') ''husky'' = None
       | Inl err \<Rightarrow> False)"
  by code_simp

text \<open>
  C6, amended. For every current document and context where the merge succeeds, and for
  each of the maps \<open>scripts\<close>, \<open>dependencies\<close> and \<open>devDependencies\<close>: a key the hook switches
  remove is absent from the output (the scripts \<open>precommit\<close> with \<open>precommit\<close> off and
  \<open>prepush\<close> with \<open>prepush\<close> off; the devDependencies \<open>husky\<close> and \<open>lint-staged\<close> with both
  off); every other key the baseline and the enabled features produce has the generated
  value; and every other key has what the current document's map has for it.
\<close>

theorem C6_generated_over_current:
  assumes "packageJSON e current ctx = Inr r"
  shows "obj_get (object_at r ''scripts'') k =
           (if k \<in> set (removed_scripts ctx) then None
            else if k \<in> set (obj_keys (produced_scripts ctx))
            then obj_get (produced_scripts ctx) k
            else obj_get (source_props (field (current_or_empty current) ''scripts'')) k)
       \<and> obj_get (object_at r ''dependencies'') k =
           (if k \<in> set (obj_keys (produced_dependencies (pkg e)))
            then obj_get (produced_dependencies (pkg e)) k
            else obj_get (source_props (field (current_or_empty current) ''dependencies'')) k)
       \<and> obj_get (object_at r ''devDependencies'') k =
           (if k \<in> set (removed_devDependencies ctx) then None
            else if k \<in> set (obj_keys (produced_devDependencies (pkg e) ctx))
            then obj_get (produced_devDependencies (pkg e) ctx) k
            else obj_get (source_props (field (current_or_empty current) ''devDependencies'')) k)"
proof -
  have r: "r = build e (current_or_empty current) ctx"
    using assms by (rule packageJSON_InrD)
  show ?thesis
    unfolding r scripts_of_build dependencies_of_build devDependencies_of_build
      obj_get_alphabetizeScripts obj_get_alphabetizeObject
    using merged_scripts_lookup merged_dependencies_lookup merged_devDependencies_lookup
    by blast
qed

theorem C6_generated_over_current_witness:
  "(case packageJSON example_env (Some example_current) example_context of
      Inr r \<Rightarrow> obj_get (object_at r ''scripts'') ''deploy'' = Some (JStr ''./deploy.sh'')
              \<and> obj_get (object_at r ''scripts'') ''lint'' = Some (JStr ''vjsstandard'')
              \<and> obj_get (object_at r ''scripts'') ''prepush'' = None
              \<and> obj_get (object_at r ''dependencies'') ''lodash'' = Some (JStr ''^4.17.0'')
              \<and> obj_get (object_at r ''dependencies'') ''video.js'' = Some (JStr ''^7.0.0'')
              \<and> obj_get (object_at r ''devDependencies'') ''left-pad'' = Some (JStr ''^1.3.0'')
              \<and> obj_get (object_at r ''devDependencies'') ''karma'' = Some (JStr ''^1.0.0'')
              \<and> obj_get (object_at r ''devDependencies'') ''lint-staged'' = None
    | Inl err \<Rightarrow> False)"
proof -
  note t = C6_generated_over_current[OF example_run]
  have "obj_get (object_at (build example_env example_current example_context) ''scripts'')
          ''deploy'' = Some (JStr ''./deploy.sh'')"
    unfolding t[of "''deploy''", THEN conjunct1] by code_simp
  moreover have "obj_get (object_at (build example_env example_current example_context) ''scripts'')
          ''lint'' = Some (JStr ''vjsstandard'')"
    unfolding t[of "''lint''", THEN conjunct1] by code_simp
  moreover have "obj_get (object_at (build example_env example_current example_context) ''scripts'')
          ''prepush'' = None"
    unfolding t[of "''prepush''", THEN conjunct1] by code_simp
  moreover have "obj_get (object_at (build example_env example_current example_context)
          ''dependencies'') ''lodash'' = Some (JStr ''^4.17.0'')"
    unfolding t[of "''lodash''", THEN conjunct2, THEN conjunct1] by code_simp
  moreover have "obj_get (object_at (build example_env example_current example_context)
          ''dependencies'') ''video.js'' = Some (JStr ''^7.0.0'')"
    unfolding t[of "''video.js''", THEN conjunct2, THEN conjunct1] by code_simp
  moreover have "obj_get (object_at (build example_env example_current example_context)
          ''devDependencies'') ''left-pad'' = Some (JStr ''^1.3.0'')"
    unfolding t[of "''left-pad''", THEN conjunct2, THEN conjunct2] by code_simp
  moreover have "obj_get (object_at (build example_env example_current example_context)
          ''devDependencies'') ''karma'' = Some (JStr ''^1.0.0'')"
    unfolding t[of "''karma''", THEN conjunct2, THEN conjunct2] by code_simp
  moreover have "obj_get (object_at (build example_env example_current example_context)
          ''devDependencies'') ''lint-staged'' = None"
    unfolding t[of "''lint-staged''", THEN conjunct2, THEN conjunct2] by code_simp
  ultimately show ?thesis
    by (simp add: example_run)
qed

text \<open>
  C7 as stated fails: the documentation feature sets three scripts, not two. With an
  empty current document the output has 19 scripts with \<open>docs\<close> off and 22 with \<open>docs\<close> on.
\<close>

theorem C7_three_docs_scripts:
  "(case packageJSON example_env None (example_context\<lparr>docs := False\<rparr>) of
      Inr rf \<Rightarrow>
        (case packageJSON example_env None (example_context\<lparr>docs := True\<rparr>) of
           Inr rt \<Rightarrow> length (object_at rf ''scripts'') = 19
                    \<and> length (object_at rt ''scripts'') = 22
         | Inl err \<Rightarrow> False)
    | Inl err \<Rightarrow> False)"
  by code_simp

text \<open>
  C7, amended. With \<open>docs\<close> on, the output is that for \<open>docs\<close> off with three scripts set on
  top (\<open>docs\<close>, \<open>docs:api\<close>, \<open>docs:toc\<close>) and two devDependencies set on top (\<open>doctoc\<close> and
  \<open>jsdoc\<close>, with the versions of the registry). Where the current document has none of the
  three script names, these are exactly three more scripts; where it has neither of the two
  package names among its devDependencies, these are exactly two more devDependencies.
\<close>

theorem C7_docs_feature:
  assumes "packageJSON e current (ctx\<lparr>docs := True\<rparr>) = Inr rt"
    and "packageJSON e current (ctx\<lparr>docs := False\<rparr>) = Inr rf"
  shows "obj_keys docs_scripts = [''docs'', ''docs:api'', ''docs:toc'']
       \<and> obj_get (object_at rt ''scripts'') k =
           (if k \<in> set (obj_keys docs_scripts) then obj_get docs_scripts k
            else obj_get (object_at rf ''scripts'') k)
       \<and> obj_get (object_at rt ''devDependencies'') k =
           (if k \<in> {''doctoc'', ''jsdoc''} then Some (JStr (version_of (pkg e) k))
            else obj_get (object_at rf ''devDependencies'') k)
       \<and> (set (obj_keys docs_scripts)
            \<inter> set (obj_keys (source_props (field (current_or_empty current) ''scripts''))) = {}
          \<longrightarrow> length (object_at rt ''scripts'') = length (object_at rf ''scripts'') + 3)
       \<and> ({''doctoc'', ''jsdoc''}
            \<inter> set (obj_keys (source_props (field (current_or_empty current) ''devDependencies''))) = {}
          \<longrightarrow> length (object_at rt ''devDependencies'')
                = length (object_at rf ''devDependencies'') + 2)"
proof -
  let ?cur = "current_or_empty current"
  let ?T = "ctx\<lparr>docs := True\<rparr>" and ?F = "ctx\<lparr>docs := False\<rparr>"
  have rt: "rt = build e ?cur ?T" using assms(1) by (rule packageJSON_InrD)
  have rf: "rf = build e ?cur ?F" using assms(2) by (rule packageJSON_InrD)
  have s: "obj_get (object_at rt ''scripts'') k =
           (if k \<in> set (obj_keys docs_scripts) then obj_get docs_scripts k
            else obj_get (object_at rf ''scripts'') k)" for k
    by (simp add: rt rf scripts_of_build merged_scripts_lookup removed_scripts_def
        produced_scripts_def obj_get_append_if obj_keys_docs_scripts obj_keys_css_scripts)
  have d: "obj_get (object_at rt ''devDependencies'') k =
           (if k \<in> {''doctoc'', ''jsdoc''} then Some (JStr (version_of (pkg e) k))
            else obj_get (object_at rf ''devDependencies'') k)" for k
    by (auto simp: rt rf devDependencies_of_build merged_devDependencies_lookup
        removed_devDependencies_def produced_devDependencies_def obj_get_resolved_entries)
  have sv: "obj_get docs_scripts k = Some (the (obj_get docs_scripts k))"
    if "k \<in> set (obj_keys docs_scripts)" for k
    using that obj_get_None_iff[of docs_scripts k] by auto
  have cs: "length (object_at rt ''scripts'') = length (object_at rf ''scripts'') + 3"
    if h: "set (obj_keys docs_scripts)
            \<inter> set (obj_keys (source_props (field ?cur ''scripts''))) = {}"
  proof -
    have "length (object_at rt ''scripts'')
        = length (object_at rf ''scripts'') + length [''docs'', ''docs:api'', ''docs:toc'']"
    proof (rule length_overlay[where g = "\<lambda>k. the (obj_get docs_scripts k)"])
      show "distinct (obj_keys (object_at rt ''scripts''))" by (simp add: rt scripts_of_build)
      show "distinct (obj_keys (object_at rf ''scripts''))" by (simp add: rf scripts_of_build)
      show "distinct [''docs'', ''docs:api'', ''docs:toc'']" by simp
      show "obj_get (object_at rt ''scripts'') k =
          (if k \<in> set [''docs'', ''docs:api'', ''docs:toc'']
           then Some (the (obj_get docs_scripts k)) else obj_get (object_at rf ''scripts'') k)" for k
        using s[of k] sv[of k] by (simp add: obj_keys_docs_scripts)
      show "obj_get (object_at rf ''scripts'') k = None"
        if "k \<in> set [''docs'', ''docs:api'', ''docs:toc'']" for k
      proof -
        have "k \<notin> set (obj_keys (source_props (field ?cur ''scripts'')))"
          using h that by (auto simp: obj_keys_docs_scripts)
        moreover have "k \<notin> set (removed_scripts ?F)"
          using that by (auto simp: removed_scripts_def)
        moreover have "k \<notin> set (obj_keys (produced_scripts ?F))"
          using that
          by (auto simp: produced_scripts_def obj_keys_baseline_scripts obj_keys_css_scripts
              baseline_script_names_def)
        ultimately show ?thesis
          by (simp add: rf scripts_of_build merged_scripts_lookup)
      qed
    qed
    then show ?thesis by simp
  qed
  have cd: "length (object_at rt ''devDependencies'') = length (object_at rf ''devDependencies'') + 2"
    if h: "{''doctoc'', ''jsdoc''}
            \<inter> set (obj_keys (source_props (field ?cur ''devDependencies''))) = {}"
  proof -
    have "length (object_at rt ''devDependencies'')
        = length (object_at rf ''devDependencies'') + length [''doctoc'', ''jsdoc'']"
    proof (rule length_overlay[where g = "\<lambda>k. JStr (version_of (pkg e) k)"])
      show "distinct (obj_keys (object_at rt ''devDependencies''))"
        by (simp add: rt devDependencies_of_build)
      show "distinct (obj_keys (object_at rf ''devDependencies''))"
        by (simp add: rf devDependencies_of_build)
      show "distinct [''doctoc'', ''jsdoc'']" by simp
      show "obj_get (object_at rt ''devDependencies'') k =
          (if k \<in> set [''doctoc'', ''jsdoc'']
           then Some (JStr (version_of (pkg e) k)) else obj_get (object_at rf ''devDependencies'') k)"
        for k
        using d[of k] by simp
      show "obj_get (object_at rf ''devDependencies'') k = None"
        if "k \<in> set [''doctoc'', ''jsdoc'']" for k
      proof -
        have "k \<notin> set (obj_keys (source_props (field ?cur ''devDependencies'')))"
          using h that by auto
        moreover have "k \<notin> set (removed_devDependencies ?F)"
          using that by (auto simp: removed_devDependencies_def)
        moreover have "k \<notin> set (obj_keys (produced_devDependencies (pkg e) ?F))"
          using that
          by (auto simp: produced_devDependencies_def baseline_devDependencies_def)
        ultimately show ?thesis
          by (simp add: rf devDependencies_of_build merged_devDependencies_lookup)
      qed
    qed
    then show ?thesis by simp
  qed
  show ?thesis
    using s d cs cd by (simp add: obj_keys_docs_scripts)
qed

theorem C7_docs_feature_witness:
  "(case packageJSON example_env None (example_context\<lparr>docs := False\<rparr>) of
      Inr rf \<Rightarrow>
        (case packageJSON example_env None (example_context\<lparr>docs := True\<rparr>) of
           Inr rt \<Rightarrow>
             length (object_at rt ''scripts'') = length (object_at rf ''scripts'') + 3
             \<and> length (object_at rt ''devDependencies'')
                 = length (object_at rf ''devDependencies'') + 2
             \<and> obj_get (object_at rt ''devDependencies'') ''jsdoc'' = Some (JStr ''^1.0.0'')
             \<and> obj_get (object_at rf ''devDependencies'') ''jsdoc'' = None
         | Inl err \<Rightarrow> False)
    | Inl err \<Rightarrow> False)"
proof -
  let ?T = "example_context\<lparr>docs := True\<rparr>" and ?F = "example_context\<lparr>docs := False\<rparr>"
  have t: "packageJSON example_env None ?T = Inr (build example_env (JObj []) ?T)"
    by code_simp
  have f: "packageJSON example_env None ?F = Inr (build example_env (JObj []) ?F)"
    by code_simp
  have e: "source_props (field (current_or_empty None) ''scripts'') = []"
    "source_props (field (current_or_empty None) ''devDependencies'') = []"
    by (simp_all add: current_or_empty_def source_props_def)
  have v: "version_of (pkg example_env) ''jsdoc'' = ''^1.0.0''"
    by code_simp
  have n: "obj_get (object_at (build example_env (JObj []) ?F) ''devDependencies'') ''jsdoc'' = None"
    by code_simp
  note c = C7_docs_feature[of example_env None example_context, OF t f, of "''jsdoc''"]
  show ?thesis
    using c e v n by (simp add: t f)
qed

text \<open>
  C8. The package names are requested in the order of \<open>requested\<close>: the two baseline
  dependencies, the baseline devDependencies, then the names of the enabled features. If a
  requested name is absent from the registry, the call returns the unresolved-dependency
  error of the first requested name that does not resolve, and no document. Every error
  the call returns is of this kind.
\<close>

theorem C8_unresolved_dependency:
  "(n \<in> set (requested ctx) \<and> \<not> in_registry (pkg e) n \<longrightarrow>
      (\<exists>m. find (\<lambda>x. \<not> resolves (pkg e) x) (requested ctx) = Some m
           \<and> packageJSON e current ctx = Inl (unresolved m)))
   \<and> (packageJSON e current ctx = Inl err \<longrightarrow>
      (\<exists>m. find (\<lambda>x. \<not> resolves (pkg e) x) (requested ctx) = Some m \<and> err = unresolved m))"
proof (intro conjI impI)
  assume "n \<in> set (requested ctx) \<and> \<not> in_registry (pkg e) n"
  then have "n \<in> set (requested ctx)" "\<not> resolves (pkg e) n"
    by (simp_all add: not_in_registry)
  then have "find (\<lambda>x. \<not> resolves (pkg e) x) (requested ctx) \<noteq> None"
    by (auto simp: find_None_iff)
  then obtain m where "find (\<lambda>x. \<not> resolves (pkg e) x) (requested ctx) = Some m"
    by auto
  then show "\<exists>m. find (\<lambda>x. \<not> resolves (pkg e) x) (requested ctx) = Some m
           \<and> packageJSON e current ctx = Inl (unresolved m)"
    by (simp add: packageJSON_eq)
next
  assume "packageJSON e current ctx = Inl err"
  then show "\<exists>m. find (\<lambda>x. \<not> resolves (pkg e) x) (requested ctx) = Some m \<and> err = unresolved m"
    by (auto simp: packageJSON_eq split: option.splits)
qed

theorem C8_unresolved_dependency_witness:
  "''jsdoc'' \<in> set (requested (example_context\<lparr>docs := True\<rparr>))
   \<and> \<not> in_registry (pkg example_env_without_jsdoc) ''jsdoc''
   \<and> packageJSON example_env_without_jsdoc (Some example_current) (example_context\<lparr>docs := True\<rparr>)
       = Inl (Error ''Error jsdoc is not in dependencies for generator-videojs-plugin'')"
proof -
  let ?ctx = "example_context\<lparr>docs := True\<rparr>"
  have a: "''jsdoc'' \<in> set (requested ?ctx)"
    by (simp add: requested_def example_context_def)
  have b: "\<not> in_registry (pkg example_env_without_jsdoc) ''jsdoc''"
    by (simp add: in_registry_def example_env_without_jsdoc_def or_empty_def obj_keys_def
        baseline_devDependencies_def)
  have c: "find (\<lambda>x. \<not> resolves (pkg example_env_without_jsdoc) x) (requested ?ctx) = Some ''jsdoc''"
    by code_simp
  have d: "unresolved ''jsdoc''
      = Error ''Error jsdoc is not in dependencies for generator-videojs-plugin''"
    by (simp add: unresolved_def)
  from a b C8_unresolved_dependency[of "''jsdoc''" ?ctx example_env_without_jsdoc
      "Some example_current"]
  obtain m where m: "find (\<lambda>x. \<not> resolves (pkg example_env_without_jsdoc) x) (requested ?ctx) = Some m"
    and e: "packageJSON example_env_without_jsdoc (Some example_current) ?ctx = Inl (unresolved m)"
    by blast
  from m c have "m = ''jsdoc''" by simp
  with e d have "packageJSON example_env_without_jsdoc (Some example_current) ?ctx
       = Inl (Error ''Error jsdoc is not in dependencies for generator-videojs-plugin'')"
    by simp
  with a b show ?thesis by blast
qed

text \<open>
  C10. When \<open>precommit\<close> is off the output scripts have no key \<open>precommit\<close>, and when
  \<open>prepush\<close> is off they have no key \<open>prepush\<close>, whatever the current document holds;
  the baseline script table defines neither name.
\<close>

theorem C10_hook_scripts_removed:
  assumes "packageJSON e current ctx = Inr r"
  shows "(\<not> precommit ctx \<longrightarrow> ''precommit'' \<notin> set (obj_keys (object_at r ''scripts'')))
       \<and> (\<not> prepush ctx \<longrightarrow> ''prepush'' \<notin> set (obj_keys (object_at r ''scripts'')))
       \<and> ''precommit'' \<notin> set (obj_keys baseline_scripts)
       \<and> ''prepush'' \<notin> set (obj_keys baseline_scripts)"
proof -
  have r: "r = build e (current_or_empty current) ctx"
    using assms by (rule packageJSON_InrD)
  have "obj_get (object_at r ''scripts'') ''precommit'' = None" if "\<not> precommit ctx"
    using that by (simp add: r scripts_of_build merged_scripts_lookup removed_scripts_def)
  moreover have "obj_get (object_at r ''scripts'') ''prepush'' = None" if "\<not> prepush ctx"
    using that by (simp add: r scripts_of_build merged_scripts_lookup removed_scripts_def)
  ultimately show ?thesis
    by (simp add: obj_get_None_iff obj_keys_baseline_scripts)
qed

theorem C10_hook_scripts_removed_witness:
  "\<not> precommit example_context \<and> \<not> prepush example_context
   \<and> obj_get (source_props (field example_current ''scripts'')) ''precommit''
       = Some (JStr ''npm run lint'')
   \<and> obj_get (source_props (field example_current ''scripts'')) ''prepush''
       = Some (JStr ''npm test'')
   \<and> (case packageJSON example_env (Some example_current) example_context of
         Inr r \<Rightarrow> ''precommit'' \<notin> set (obj_keys (object_at r ''scripts''))
                 \<and> ''prepush'' \<notin> set (obj_keys (object_at r ''scripts''))
       | Inl err \<Rightarrow> False)"
proof -
  have flags: "\<not> precommit example_context" "\<not> prepush example_context"
    by (simp_all add: example_context_def)
  have cur: "obj_get (source_props (field example_current ''scripts'')) ''precommit''
       = Some (JStr ''npm run lint'')"
    "obj_get (source_props (field example_current ''scripts'')) ''prepush''
       = Some (JStr ''npm test'')"
    by (simp_all add: example_current_def source_props_def)
  show ?thesis
    using C10_hook_scripts_removed[OF example_run] flags cur by (simp add: example_run)
qed

end
